theory Spec2Isabelle
  imports Complex_Main
begin

section \<open>Tables, cells and errors\<close>

text \<open>
  The preprocessor of \<^verbatim>\<open>data_preprocessing.py\<close> owns one pandas table
  (\<^verbatim>\<open>self.df\<close>) and rewrites it step by step. A cell of the table is a missing
  value (\<^verbatim>\<open>None\<close>/\<^verbatim>\<open>NaN\<close>), a number or a text. Numbers are reals: the methods
  themselves only compare them, and what the libraries compute from them in floating point is a
  parameter of the model. A column carries the dtype
  pandas keeps for it; a categorical dtype carries its categories, which a column keeps when
  rows are dropped, also those no row holds any more. Every exception of the source is a value
  of \<open>error\<close>.
\<close>

datatype cell = Missing | Num real | Str string

datatype dtype = Int64 | Float64 | Object | Category "cell set"

definition is_category :: "dtype \<Rightarrow> bool" where
  "is_category t = (case t of Category _ \<Rightarrow> True | _ \<Rightarrow> False)"

definition categories_of :: "dtype \<Rightarrow> cell set" where
  "categories_of t = (case t of Category cats \<Rightarrow> cats | _ \<Rightarrow> {})"

datatype error = KeyError | TypeError | ValueError

type_synonym series = "dtype \<times> cell list"

record dataframe =
  columns :: "(string \<times> dtype) list"
  rows :: "cell list list"

definition names :: "dataframe \<Rightarrow> string list" where
  "names d = map fst (columns d)"

definition wf_frame :: "dataframe \<Rightarrow> bool" where
  "wf_frame d = list_all (\<lambda>r. length r = length (columns d)) (rows d)"

definition bind :: "error + 'a \<Rightarrow> ('a \<Rightarrow> error + 'b) \<Rightarrow> error + 'b" where
  "bind m f = (case m of Inl e \<Rightarrow> Inl e | Inr x \<Rightarrow> f x)"

fun mapM :: "('a \<Rightarrow> error + 'b) \<Rightarrow> 'a list \<Rightarrow> error + 'b list" where
  "mapM f [] = Inr []"
| "mapM f (x # xs) =
     (case f x of Inl e \<Rightarrow> Inl e
      | Inr y \<Rightarrow> (case mapM f xs of Inl e \<Rightarrow> Inl e | Inr ys \<Rightarrow> Inr (y # ys)))"

section \<open>Configuration and library parameters\<close>

text \<open>
  The four name constants are imported from \<^verbatim>\<open>_common.misc.variables\<close>, which is
  not part of the sources at hand; they are a parameter of every operation that reads them.
\<close>

record config =
  NUMERIC_FEATS :: "string list"
  CATEGORICAL_FEATS :: "string list"
  FEAT_COLS :: "string list"
  TARGET_COL :: string

text \<open>
  What pandas, Python and numpy do with a text or a seed is a parameter as well:
  \<^item> \<open>to_numeric_str\<close>: the number \<^verbatim>\<open>pd.to_numeric\<close> reads from a text, \<open>None\<close>
    when the text is not a number (or reads as NaN);
  \<^item> \<open>float_str\<close>: Python's \<^verbatim>\<open>float(s)\<close> as used by \<^verbatim>\<open>astype(float)\<close>:
    \<open>Invalid\<close> is the \<^verbatim>\<open>ValueError\<close>, \<open>NaN\<close> the not-a-number result;
  \<^item> \<open>permutation seed n\<close>: the order in which a numpy generator freshly seeded with
    \<open>seed\<close> shuffles \<open>n\<close> positions;
  \<^item> \<open>standard_scale xs\<close>: the values \<^verbatim>\<open>StandardScaler\<close> computes, in floating
    point, from the values \<open>xs\<close> of one column, and \<open>is_constant_feature xs\<close>: whether the
    scaler finds the column constant (its variance within the rounding error of the fit) and
    so divides by one.
\<close>

datatype parsed = Invalid | NaN | Value real

record library =
  to_numeric_str :: "string \<Rightarrow> real option"
  float_str :: "string \<Rightarrow> parsed"
  permutation :: "nat \<Rightarrow> nat \<Rightarrow> nat list"
  standard_scale :: "real list \<Rightarrow> real list"
  is_constant_feature :: "real list \<Rightarrow> bool"

text \<open>
  Two conditions on these parameters are premises where a claim needs them: that Python's
  \<^verbatim>\<open>float\<close> reads a number from every text from which \<^verbatim>\<open>pd.to_numeric\<close> reads
  one, and that the shuffle of \<open>n\<close> positions is a permutation of \<open>0, \<dots>, n - 1\<close>.
\<close>

definition parsers_agree :: "library \<Rightarrow> bool" where
  "parsers_agree L = (\<forall>s. to_numeric_str L s \<noteq> None \<longrightarrow> (\<exists>y. float_str L s = Value y))"

definition valid_rng :: "library \<Rightarrow> bool" where
  "valid_rng L = (\<forall>seed n. set (permutation L seed n) = {0..<n} \<and> distinct (permutation L seed n))"

section \<open>pandas primitives used by the preprocessor\<close>

fun index_of :: "string \<Rightarrow> string list \<Rightarrow> nat option" where
  "index_of c [] = None"
| "index_of c (x # xs) = (if x = c then Some 0 else map_option Suc (index_of c xs))"

text \<open>\<^verbatim>\<open>df[col]\<close>: the column as a series, \<^verbatim>\<open>KeyError\<close> when there is none.\<close>

definition getitem :: "dataframe \<Rightarrow> string \<Rightarrow> error + series" where
  "getitem d c =
     (case index_of c (names d) of
        None \<Rightarrow> Inl KeyError
      | Some i \<Rightarrow> Inr (snd (columns d ! i), map (\<lambda>r. r ! i) (rows d)))"

text \<open>\<^verbatim>\<open>df[col] = s\<close>: overwrites the column, or appends it when the name is new.\<close>

definition setitem :: "dataframe \<Rightarrow> string \<Rightarrow> series \<Rightarrow> dataframe" where
  "setitem d c s =
     (case index_of c (names d) of
        None \<Rightarrow> d\<lparr>columns := columns d @ [(c, fst s)],
                  rows := map2 (\<lambda>r v. r @ [v]) (rows d) (snd s)\<rparr>
      | Some i \<Rightarrow> d\<lparr>columns := (columns d)[i := (c, fst s)],
                    rows := map2 (\<lambda>r v. r[i := v]) (rows d) (snd s)\<rparr>)"

text \<open>\<^verbatim>\<open>df[[c1, c2, ...]]\<close>: the named columns in the order asked for.\<close>

definition pos :: "dataframe \<Rightarrow> string \<Rightarrow> nat" where
  "pos d c = (case index_of c (names d) of None \<Rightarrow> 0 | Some i \<Rightarrow> i)"

definition loc :: "dataframe \<Rightarrow> string \<Rightarrow> error + nat" where
  "loc d c = (case index_of c (names d) of None \<Rightarrow> Inl KeyError | Some i \<Rightarrow> Inr i)"

definition getitems :: "dataframe \<Rightarrow> string list \<Rightarrow> error + dataframe" where
  "getitems d cs =
     bind (mapM (loc d) cs)
       (\<lambda>js. Inr \<lparr>columns = map (\<lambda>i. columns d ! i) js,
                  rows = map (\<lambda>r. map (\<lambda>i. r ! i) js) (rows d)\<rparr>)"

text \<open>\<^verbatim>\<open>df[mask]\<close> with a boolean mask: the rows whose mask entry is true.\<close>

definition boolean_index :: "dataframe \<Rightarrow> bool list \<Rightarrow> dataframe" where
  "boolean_index d m = d\<lparr>rows := map fst (filter snd (zip (rows d) m))\<rparr>"

definition notna :: "series \<Rightarrow> bool list" where
  "notna s = map (\<lambda>c. c \<noteq> Missing) (snd s)"

text \<open>
  \<^verbatim>\<open>series < t\<close> for a number \<open>t\<close>. A missing value compares false. A text against a
  number is Python's \<^verbatim>\<open>TypeError\<close>, and so is any order comparison of an unordered
  categorical column.
\<close>

fun lt_cell :: "real \<Rightarrow> cell \<Rightarrow> error + bool" where
  "lt_cell t Missing = Inr False"
| "lt_cell t (Num x) = Inr (x < t)"
| "lt_cell t (Str s) = Inl TypeError"

definition lt_scalar :: "series \<Rightarrow> real \<Rightarrow> error + bool list" where
  "lt_scalar s t = (if is_category (fst s) then Inl TypeError else mapM (lt_cell t) (snd s))"

text \<open>\<^verbatim>\<open>pd.to_numeric(s, errors="coerce")\<close>: what does not read as a number becomes NaN.\<close>

fun to_numeric_cell :: "library \<Rightarrow> cell \<Rightarrow> cell" where
  "to_numeric_cell L Missing = Missing"
| "to_numeric_cell L (Num x) = Num x"
| "to_numeric_cell L (Str s) = (case to_numeric_str L s of None \<Rightarrow> Missing | Some x \<Rightarrow> Num x)"

definition to_numeric :: "library \<Rightarrow> series \<Rightarrow> series" where
  "to_numeric L s = (Float64, map (to_numeric_cell L) (snd s))"

text \<open>
  \<^verbatim>\<open>s.astype(float)\<close> and \<^verbatim>\<open>s.astype("category")\<close>. The cast to float of a
  categorical column casts its categories, so a category that is no number is a
  \<^verbatim>\<open>ValueError\<close> also when no row holds it. The cast to categorical takes the values
  present as the categories, and leaves a column that is categorical already as it is.
\<close>

fun float_cell :: "library \<Rightarrow> cell \<Rightarrow> error + cell" where
  "float_cell L Missing = Inr Missing"
| "float_cell L (Num x) = Inr (Num x)"
| "float_cell L (Str s) =
     (case float_str L s of Invalid \<Rightarrow> Inl ValueError | NaN \<Rightarrow> Inr Missing | Value x \<Rightarrow> Inr (Num x))"

text \<open>The cell \<^verbatim>\<open>astype(float)\<close> makes of a cell it accepts.\<close>

definition as_float :: "library \<Rightarrow> cell \<Rightarrow> cell" where
  "as_float L c = (case float_cell L c of Inl _ \<Rightarrow> Missing | Inr v \<Rightarrow> v)"

definition rejects :: "library \<Rightarrow> cell \<Rightarrow> bool" where
  "rejects L c = (case float_cell L c of Inl _ \<Rightarrow> True | Inr _ \<Rightarrow> False)"

definition astype_float :: "library \<Rightarrow> series \<Rightarrow> error + series" where
  "astype_float L s =
     (if \<exists>c \<in> categories_of (fst s). rejects L c then Inl ValueError
      else bind (mapM (float_cell L) (snd s)) (\<lambda>vs. Inr (Float64, vs)))"

definition astype_category :: "series \<Rightarrow> error + series" where
  "astype_category s =
     Inr (if is_category (fst s) then s else (Category (set (snd s) - {Missing}), snd s))"

text \<open>
  \<^verbatim>\<open>s.fillna(v)\<close>: a categorical column refuses a value that is not one of its
  categories with a \<^verbatim>\<open>TypeError\<close>, whether or not it has anything to fill. Any other
  series with nothing missing is left as it is, and a numeric column that receives a text
  becomes an object column.
\<close>

definition fill_dtype :: "cell \<Rightarrow> dtype \<Rightarrow> dtype" where
  "fill_dtype v t = (case v of Str _ \<Rightarrow> (if t = Int64 \<or> t = Float64 then Object else t) | _ \<Rightarrow> t)"

definition fillna :: "cell \<Rightarrow> series \<Rightarrow> error + series" where
  "fillna v s =
     (if is_category (fst s) \<and> v \<notin> categories_of (fst s) then Inl TypeError
      else if Missing \<notin> set (snd s) then Inr s
      else Inr (fill_dtype v (fst s), map (\<lambda>c. if c = Missing then v else c) (snd s)))"

text \<open>\<^verbatim>\<open>df[col].fillna(v, inplace=True)\<close>: the filled series replaces the column.\<close>

definition fillna_inplace :: "string \<Rightarrow> cell \<Rightarrow> dataframe \<Rightarrow> error + dataframe" where
  "fillna_inplace c v d = bind (getitem d c) (\<lambda>s. bind (fillna v s) (\<lambda>s'. Inr (setitem d c s')))"

text \<open>
  \<^verbatim>\<open>df.drop_duplicates(inplace=True)\<close>: of rows equal in every column the first stays
  (missing values count as equal to each other).
\<close>

definition drop_duplicates :: "dataframe \<Rightarrow> dataframe" where
  "drop_duplicates d = d\<lparr>rows := rev (remdups (rev (rows d)))\<rparr>"

section \<open>The methods of DataPreprocessor\<close>

text \<open>
  A method takes the owned table and returns the table it leaves behind, or the exception
  it raises (what is left of the table when a method raises is not kept). The text sentinel
  is the source's \<^verbatim>\<open>"brak informacji"\<close>.
\<close>

definition sentinel :: cell where
  "sentinel = Str ''brak informacji''"

definition handle_missing_and_duplicated_values :: "dataframe \<Rightarrow> error + dataframe" where
  "handle_missing_and_duplicated_values d =
     bind (fillna_inplace ''floor'' sentinel d) (\<lambda>d1.
     bind (fillna_inplace ''status'' sentinel d1) (\<lambda>d2.
     bind (fillna_inplace ''property_type'' sentinel d2) (\<lambda>d3.
     bind (fillna_inplace ''rooms'' (Num 1) d3) (\<lambda>d4.
     bind (fillna_inplace ''year_built'' sentinel d4) (\<lambda>d5.
     bind (fillna_inplace ''property_condition'' sentinel d5) (\<lambda>d6.
     let d7 = drop_duplicates d6 in
     bind (getitem d7 ''price'') (\<lambda>p.
     let d8 = boolean_index d7 (notna p) in
     bind (getitem d8 ''size'') (\<lambda>s.
     Inr (boolean_index d8 (notna s))))))))))"

definition process_price :: "library \<Rightarrow> real \<Rightarrow> dataframe \<Rightarrow> error + dataframe" where
  "process_price L filter_price d =
     bind (getitem d ''price'') (\<lambda>p.
     let d1 = boolean_index d (notna (to_numeric L p)) in
     bind (getitem d1 ''price'') (\<lambda>p1.
     bind (astype_float L p1) (\<lambda>p2.
     let d2 = setitem d1 ''price'' p2 in
     if filter_price > 0 then
       bind (getitem d2 ''price'') (\<lambda>p3.
       bind (lt_scalar p3 filter_price) (\<lambda>m. Inr (boolean_index d2 m)))
     else Inr d2)))"

definition process_size :: "real \<Rightarrow> dataframe \<Rightarrow> error + dataframe" where
  "process_size filter_size d =
     (if filter_size > 0 then
        bind (getitem d ''size'') (\<lambda>s.
        bind (lt_scalar s filter_size) (\<lambda>m. Inr (boolean_index d m)))
      else Inr d)"

definition process_floor :: "real \<Rightarrow> dataframe \<Rightarrow> error + dataframe" where
  "process_floor filter_floor d =
     (if filter_floor > 0 then
        bind (getitem d ''floor'') (\<lambda>s.
        bind (lt_scalar s filter_floor) (\<lambda>m. Inr (boolean_index d m)))
      else Inr d)"

text \<open>The loop \<^verbatim>\<open>for col in cols: df[col] = df[col].astype(t)\<close> on the owned table.\<close>

fun astype_loop :: "(series \<Rightarrow> error + series) \<Rightarrow> string list \<Rightarrow> dataframe \<Rightarrow> error + dataframe" where
  "astype_loop f [] d = Inr d"
| "astype_loop f (c # cs) d =
     bind (getitem d c) (\<lambda>s. bind (f s) (\<lambda>s'. astype_loop f cs (setitem d c s')))"

definition cast_types :: "config \<Rightarrow> library \<Rightarrow> dataframe \<Rightarrow> error + dataframe" where
  "cast_types cfg L d =
     bind (astype_loop (astype_float L) (NUMERIC_FEATS cfg) d)
       (astype_loop astype_category (CATEGORICAL_FEATS cfg))"

definition select_features :: "config \<Rightarrow> dataframe \<Rightarrow> error + dataframe" where
  "select_features cfg d = getitems d (FEAT_COLS cfg @ [TARGET_COL cfg])"

text \<open>
  \<^verbatim>\<open>StandardScaler().fit_transform(X)\<close>: every cell is read as a number (a text that
  is no number is a \<^verbatim>\<open>ValueError\<close>, as is a table without rows or without columns).
  Column by column, the values present are replaced by what the scaler of the library makes
  of them; missing values stay missing.
\<close>

definition nums :: "cell list \<Rightarrow> real list" where
  "nums cs = concat (map (\<lambda>c. case c of Num x \<Rightarrow> [x] | _ \<Rightarrow> []) cs)"

fun put_back :: "real list \<Rightarrow> cell list \<Rightarrow> cell list" where
  "put_back ys [] = []"
| "put_back (y # ys) (Num x # cs) = Num y # put_back ys cs"
| "put_back ys (c # cs) = c # put_back ys cs"

definition check_array :: "library \<Rightarrow> series \<Rightarrow> error + series" where
  "check_array L s = bind (mapM (float_cell L) (snd s)) (\<lambda>vs. Inr (Float64, vs))"

definition scale_column :: "library \<Rightarrow> series \<Rightarrow> series" where
  "scale_column L s = (Float64, put_back (standard_scale L (nums (snd s))) (snd s))"

definition series_of :: "dataframe \<Rightarrow> series list" where
  "series_of X = map (\<lambda>j. (snd (columns X ! j), map (\<lambda>r. r ! j) (rows X))) [0..<length (columns X)]"

definition fit_transform :: "library \<Rightarrow> dataframe \<Rightarrow> error + series list" where
  "fit_transform L X =
     bind (mapM (check_array L) (series_of X)) (\<lambda>fs.
     if rows X = [] \<or> columns X = [] then Inl ValueError else Inr (map (scale_column L) fs))"

text \<open>\<^verbatim>\<open>df[[c1, c2, ...]] = values\<close>: the columns are overwritten one by one.\<close>

fun setitems :: "dataframe \<Rightarrow> string list \<Rightarrow> series list \<Rightarrow> dataframe" where
  "setitems d (c # cs) (s # ss) = setitems (setitem d c s) cs ss"
| "setitems d _ _ = d"

definition standardize :: "config \<Rightarrow> library \<Rightarrow> dataframe \<Rightarrow> error + dataframe" where
  "standardize cfg L d =
     bind (getitems d (NUMERIC_FEATS cfg)) (\<lambda>X.
     bind (fit_transform L X) (\<lambda>ss. Inr (setitems d (NUMERIC_FEATS cfg) ss)))"

definition run_preprocessing_pipeline ::
    "config \<Rightarrow> library \<Rightarrow> bool \<Rightarrow> bool \<Rightarrow> dataframe \<Rightarrow> error + dataframe" where
  "run_preprocessing_pipeline cfg L do_cast_types do_standardize d =
     bind (if do_cast_types then cast_types cfg L d else Inr d) (\<lambda>d1.
     bind (process_price L 17500000 d1) (\<lambda>d2.
     bind (process_size 1000 d2) (\<lambda>d3.
     bind (process_floor 30 d3) (\<lambda>d4.
     bind (if do_standardize then standardize cfg L d4 else Inr d4) (\<lambda>d5.
     select_features cfg d5)))))"

text \<open>
  sklearn's \<^verbatim>\<open>train_test_split(X, y, test_size=0.2, random_state=s, shuffle=True)\<close>:
  of \<open>n\<close> rows \<open>\<lceil>0.2 n\<rceil>\<close> go to the holdout part and the rest to the training part; an
  empty training part is a \<^verbatim>\<open>ValueError\<close>. The rows are taken in the order of the
  permutation drawn from the seed: its first entries are the holdout positions. (The double
  nearest to \<open>0.2\<close> times \<open>n\<close> rounds up to the same integer as \<open>n / 5\<close> for every table
  size below \<open>2\<^sup>5\<^sup>0\<close>.)
\<close>

definition iloc :: "dataframe \<Rightarrow> nat list \<Rightarrow> dataframe" where
  "iloc X ps = X\<lparr>rows := map (\<lambda>i. rows X ! i) ps\<rparr>"

definition iloc_series :: "series \<Rightarrow> nat list \<Rightarrow> series" where
  "iloc_series y ps = (fst y, map (\<lambda>i. snd y ! i) ps)"

definition n_test_of :: "nat \<Rightarrow> nat" where
  "n_test_of n = (n + 4) div 5"

definition sk_train_test_split ::
    "library \<Rightarrow> dataframe \<Rightarrow> series \<Rightarrow> nat \<Rightarrow>
       error + (dataframe \<times> dataframe \<times> series \<times> series)" where
  "sk_train_test_split L X y random_state =
     (let n = length (rows X); n_test = n_test_of n; n_train = n - n_test in
      if n_train = 0 then Inl ValueError
      else
        let p = permutation L random_state n; test = take n_test p; train = take n_train (drop n_test p)
        in Inr (iloc X train, iloc X test, iloc_series y train, iloc_series y test))"

definition train_test_split ::
    "config \<Rightarrow> library \<Rightarrow> dataframe \<Rightarrow> error + (dataframe \<times> dataframe \<times> series \<times> series)" where
  "train_test_split cfg L d =
     bind (getitems d (FEAT_COLS cfg)) (\<lambda>X.
     bind (getitem d (TARGET_COL cfg)) (\<lambda>y.
     sk_train_test_split L X y 42))"

section \<open>The static method and the object store\<close>

text \<open>
  \<^verbatim>\<open>static_cast_types(df)\<close> receives a reference to a table object and assigns to its
  columns, so tables live in a store of objects here. The instance holds a reference to its
  table in the attribute \<^verbatim>\<open>df\<close>, and \<^verbatim>\<open>get()\<close> hands out that reference. Each
  assignment \<^verbatim>\<open>df[col] = ...\<close> is an update of the store, also when a later column raises.
\<close>

type_synonym addr = nat

type_synonym heap = "addr \<Rightarrow> dataframe"

record preprocessor =
  df :: addr

definition get :: "preprocessor \<Rightarrow> addr" where
  "get self = df self"

fun static_astype_loop ::
    "(series \<Rightarrow> error + series) \<Rightarrow> string list \<Rightarrow> addr \<Rightarrow> heap \<Rightarrow> heap \<times> error option" where
  "static_astype_loop f [] a h = (h, None)"
| "static_astype_loop f (c # cs) a h =
     (case bind (getitem (h a) c) f of
        Inl e \<Rightarrow> (h, Some e)
      | Inr s' \<Rightarrow> static_astype_loop f cs a (h(a := setitem (h a) c s')))"

definition static_cast_types :: "config \<Rightarrow> library \<Rightarrow> addr \<Rightarrow> heap \<Rightarrow> heap \<times> (error + addr)" where
  "static_cast_types cfg L a h =
     (case static_astype_loop (astype_float L) (NUMERIC_FEATS cfg) a h of
        (h1, Some e) \<Rightarrow> (h1, Inl e)
      | (h1, None) \<Rightarrow>
          (case static_astype_loop astype_category (CATEGORICAL_FEATS cfg) a h1 of
             (h2, Some e) \<Rightarrow> (h2, Inl e)
           | (h2, None) \<Rightarrow> (h2, Inr a)))"

section \<open>The order of the pipeline, as the specification words it\<close>

datatype step =
    CastTypes
  | ProcessPrice real
  | ProcessSize real
  | ProcessFloor real
  | Standardize
  | SelectFeatures
  | HandleMissingAndDuplicatedValues

fun run_step :: "config \<Rightarrow> library \<Rightarrow> step \<Rightarrow> dataframe \<Rightarrow> error + dataframe" where
  "run_step cfg L CastTypes d = cast_types cfg L d"
| "run_step cfg L (ProcessPrice t) d = process_price L t d"
| "run_step cfg L (ProcessSize t) d = process_size t d"
| "run_step cfg L (ProcessFloor t) d = process_floor t d"
| "run_step cfg L Standardize d = standardize cfg L d"
| "run_step cfg L SelectFeatures d = select_features cfg d"
| "run_step cfg L HandleMissingAndDuplicatedValues d = handle_missing_and_duplicated_values d"

fun run_steps :: "config \<Rightarrow> library \<Rightarrow> step list \<Rightarrow> dataframe \<Rightarrow> error + dataframe" where
  "run_steps cfg L [] d = Inr d"
| "run_steps cfg L (s # ss) d = bind (run_step cfg L s d) (run_steps cfg L ss)"

definition spec_sequence :: "bool \<Rightarrow> bool \<Rightarrow> step list" where
  "spec_sequence do_cast_types do_standardize =
     (if do_cast_types then [CastTypes] else [])
     @ [ProcessPrice 17500000, ProcessSize 1000, ProcessFloor 30]
     @ (if do_standardize then [Standardize] else [])
     @ [SelectFeatures]"

section \<open>Notions for stating the claims\<close>

text \<open>
  Tests on one cell and readings of one column: \<open>below t\<close> is the order test
  \<^verbatim>\<open>value < t\<close> of a numeric column, false for a missing value; \<open>dtype_of\<close> and
  \<open>cells_of\<close> are the dtype pandas reports for a column and its cells, top to bottom.
\<close>

definition below :: "real \<Rightarrow> cell \<Rightarrow> bool" where
  "below t c = (case c of Num x \<Rightarrow> x < t | _ \<Rightarrow> False)"

definition is_text :: "cell \<Rightarrow> bool" where
  "is_text c = (case c of Str _ \<Rightarrow> True | _ \<Rightarrow> False)"

definition is_missing :: "dataframe \<Rightarrow> string \<Rightarrow> cell list \<Rightarrow> bool" where
  "is_missing d c r = (r ! pos d c = Missing)"

definition dtype_of :: "dataframe \<Rightarrow> string \<Rightarrow> dtype" where
  "dtype_of d c = snd (columns d ! pos d c)"

definition cells_of :: "dataframe \<Rightarrow> string \<Rightarrow> cell list" where
  "cells_of d c = map (\<lambda>r. r ! pos d c) (rows d)"

text \<open>
  The missing-value step, as the specification words it: the six columns that are filled and
  the value each receives; the filling of one row; and the condition under which pandas accepts
  the fill value for a column (a categorical column takes none but its categories).
\<close>

definition fill_values :: "(string \<times> cell) list" where
  "fill_values =
     [(''floor'', sentinel), (''status'', sentinel), (''property_type'', sentinel),
      (''rooms'', Num 1), (''year_built'', sentinel), (''property_condition'', sentinel)]"

definition fill_cell :: "cell \<Rightarrow> cell \<Rightarrow> cell" where
  "fill_cell v c = (if c = Missing then v else c)"

definition fill_row :: "dataframe \<Rightarrow> (string \<times> cell) list \<Rightarrow> cell list \<Rightarrow> cell list" where
  "fill_row d cvs r = fold (\<lambda>cv r. r[pos d (fst cv) := fill_cell (snd cv) (r ! pos d (fst cv))]) cvs r"

definition fillable :: "dataframe \<Rightarrow> string \<times> cell \<Rightarrow> bool" where
  "fillable d cv =
     (\<not> is_category (dtype_of d (fst cv)) \<or> snd cv \<in> categories_of (dtype_of d (fst cv)))"

fun fill_all :: "(string \<times> cell) list \<Rightarrow> dataframe \<Rightarrow> error + dataframe" where
  "fill_all [] d = Inr d"
| "fill_all (cv # cvs) d = bind (fillna_inplace (fst cv) (snd cv) d) (fill_all cvs)"

text \<open>
  The mean and the variance of the values of a column, a column all of whose values are the
  same, and what the claims rely on from the scaler of the library, for a tolerance \<open>tol\<close>:
  the values it returns for the values of a column are as many, have their mean within
  \<open>tol\<close> of \<open>0\<close> and, unless it finds the column constant, their variance within \<open>tol\<close>
  of \<open>1\<close>; a column of equal values it finds constant and returns as equal values.
\<close>

definition mean :: "real list \<Rightarrow> real" where
  "mean xs = sum_list xs / real (length xs)"

definition variance :: "real list \<Rightarrow> real" where
  "variance xs = sum_list (map (\<lambda>x. (x - mean xs)\<^sup>2) xs) / real (length xs)"

definition all_equal :: "real list \<Rightarrow> bool" where
  "all_equal xs = list_all (\<lambda>x. x = hd xs) xs"

definition scaler_within :: "library \<Rightarrow> real \<Rightarrow> bool" where
  "scaler_within L tol =
     (\<forall>xs. xs \<noteq> [] \<longrightarrow>
        length (standard_scale L xs) = length xs
        \<and> \<bar>mean (standard_scale L xs)\<bar> \<le> tol
        \<and> (\<not> is_constant_feature L xs \<longrightarrow> \<bar>variance (standard_scale L xs) - 1\<bar> \<le> tol)
        \<and> (all_equal xs \<longrightarrow> is_constant_feature L xs \<and> all_equal (standard_scale L xs)))"

text \<open>The holdout and the training positions of a table of \<open>n\<close> rows under the seed \<open>42\<close>.\<close>

definition test_positions :: "library \<Rightarrow> nat \<Rightarrow> nat list" where
  "test_positions L n = take (n_test_of n) (permutation L 42 n)"

definition train_positions :: "library \<Rightarrow> nat \<Rightarrow> nat list" where
  "train_positions L n = drop (n_test_of n) (permutation L 42 n)"

section \<open>An instance of the parameters, and tables to run the methods on\<close>

text \<open>
  The numeric texts of this instance are the unsigned decimal integers, read alike by both
  readers, its shuffle reverses the positions, and its scaler works in exact arithmetic: it
  subtracts the mean and divides by the standard deviation, or by one when the variance is
  zero. The configuration names three numeric features, one categorical feature and the target
  \<open>price\<close>.
\<close>

definition digit_of :: "char \<Rightarrow> nat option" where
  "digit_of c = (let k = (of_char c :: nat) in if 48 \<le> k \<and> k \<le> 57 then Some (k - 48) else None)"

fun read_digits :: "nat \<Rightarrow> string \<Rightarrow> nat option" where
  "read_digits acc [] = Some acc"
| "read_digits acc (c # cs) =
     (case digit_of c of None \<Rightarrow> None | Some k \<Rightarrow> read_digits (10 * acc + k) cs)"

definition read_decimal :: "string \<Rightarrow> real option" where
  "read_decimal s = (if s = [] then None else map_option real (read_digits 0 s))"

definition exact_factor :: "real list \<Rightarrow> real" where
  "exact_factor xs = (if variance xs = 0 then 1 else sqrt (variance xs))"

definition exact_scale :: "real list \<Rightarrow> real list" where
  "exact_scale xs = map (\<lambda>x. (x - mean xs) / exact_factor xs) xs"

definition plain_library :: library where
  "plain_library =
     \<lparr>to_numeric_str = read_decimal,
      float_str = (\<lambda>s. case read_decimal s of None \<Rightarrow> Invalid | Some x \<Rightarrow> Value x),
      permutation = (\<lambda>seed n. rev [0..<n]),
      standard_scale = exact_scale,
      is_constant_feature = (\<lambda>xs. variance xs = 0)\<rparr>"

definition listing_config :: config where
  "listing_config =
     \<lparr>NUMERIC_FEATS = [''size'', ''rooms'', ''floor''],
      CATEGORICAL_FEATS = [''status''],
      FEAT_COLS = [''size'', ''rooms'', ''floor'', ''status''],
      TARGET_COL = ''price''\<rparr>"

definition raw_listing :: dataframe where
  "raw_listing =
     \<lparr>columns = [(''id'', Int64), (''price'', Float64), (''size'', Float64), (''rooms'', Int64),
                 (''floor'', Float64), (''status'', Object), (''title'', Object)],
      rows = [[Num 1, Num 350000, Num 52, Num 2, Num 3, Str ''ready'', Str ''flat A''],
              [Num 2, Num 910000, Num 120, Num 5, Num 0, Missing, Str ''house B'']]\<rparr>"

definition cast_listing :: dataframe where
  "cast_listing =
     \<lparr>columns = [(''id'', Int64), (''price'', Float64), (''size'', Float64), (''rooms'', Float64),
                 (''floor'', Float64), (''status'', Category {Str ''ready''}), (''title'', Object)],
      rows = [[Num 1, Num 350000, Num 52, Num 2, Num 3, Str ''ready'', Str ''flat A''],
              [Num 2, Num 910000, Num 120, Num 5, Num 0, Missing, Str ''house B'']]\<rparr>"

definition price_table :: dataframe where
  "price_table =
     \<lparr>columns = [(''id'', Int64), (''price'', Object)],
      rows = [[Num 1, Str ''100000''], [Num 2, Str ''abc''], [Num 3, Str ''250000'']]\<rparr>"

definition raw_table :: dataframe where
  "raw_table =
     \<lparr>columns = [(''price'', Float64), (''size'', Float64), (''rooms'', Float64), (''floor'', Float64),
                 (''status'', Object), (''property_type'', Object), (''year_built'', Float64),
                 (''property_condition'', Object)],
      rows = [[Num 300000, Num 40, Num 2, Num 1, Str ''ready'', Str ''flat'', Num 1990, Str ''good''],
              [Num 310000, Num 41, Missing, Num 2, Missing, Str ''flat'', Num 1991, Str ''good''],
              [Num 320000, Num 42, Num 3, Missing, Str ''ready'', Str ''flat'', Missing, Missing],
              [Num 330000, Missing, Num 2, Num 4, Str ''ready'', Str ''house'', Num 1993, Str ''good''],
              [Num 340000, Num 44, Num 2, Num 5, Str ''ready'', Str ''flat'', Num 1994, Str ''new''],
              [Num 310000, Num 41, Missing, Num 2, Missing, Str ''flat'', Num 1991, Str ''good''],
              [Num 360000, Num 46, Num 4, Num 7, Str ''ready'', Missing, Num 1996, Str ''good''],
              [Num 370000, Num 47, Num 2, Num 8, Str ''ready'', Str ''flat'', Num 1997, Str ''good''],
              [Num 380000, Num 48, Num 1, Num 9, Str ''ready'', Str ''flat'', Num 1998, Str ''good''],
              [Num 390000, Num 49, Num 2, Num 10, Str ''ready'', Str ''flat'', Num 1999, Str ''old'']]\<rparr>"

definition floor_table :: dataframe where
  "floor_table =
     \<lparr>columns = [(''price'', Float64), (''size'', Float64), (''rooms'', Float64), (''floor'', Float64),
                 (''status'', Object), (''property_type'', Object), (''year_built'', Float64),
                 (''property_condition'', Object)],
      rows = [[Num 300000, Num 40, Num 2, Num 1, Str ''ready'', Str ''flat'', Num 1990, Str ''good''],
              [Num 310000, Num 41, Num 3, Missing, Str ''ready'', Str ''flat'', Num 1991, Str ''good'']]\<rparr>"

definition floor_filled :: dataframe where
  "floor_filled =
     \<lparr>columns = [(''price'', Float64), (''size'', Float64), (''rooms'', Float64), (''floor'', Object),
                 (''status'', Object), (''property_type'', Object), (''year_built'', Float64),
                 (''property_condition'', Object)],
      rows = [[Num 300000, Num 40, Num 2, Num 1, Str ''ready'', Str ''flat'', Num 1990, Str ''good''],
              [Num 310000, Num 41, Num 3, Str ''brak informacji'', Str ''ready'', Str ''flat'',
               Num 1991, Str ''good'']]\<rparr>"

definition tall_table :: dataframe where
  "tall_table =
     \<lparr>columns = [(''id'', Int64), (''floor'', Float64)],
      rows = [[Num 1, Num 3], [Num 2, Num 30], [Num 3, Missing], [Num 4, Num 29], [Num 5, Num 45]]\<rparr>"

definition single_listing :: dataframe where
  "single_listing =
     \<lparr>columns = [(''size'', Float64), (''rooms'', Float64), (''floor'', Float64),
                 (''status'', Category {Str ''ready''}), (''price'', Float64)],
      rows = [[Num 52, Num 2, Num 3, Str ''ready'', Num 350000]]\<rparr>"

definition split_table :: dataframe where
  "split_table =
     \<lparr>columns = [(''size'', Float64), (''rooms'', Float64), (''floor'', Float64),
                 (''status'', Category {Str ''ready'', Str ''sold''}), (''price'', Float64)],
      rows = [[Num 50, Num 2, Num 0, Str ''ready'', Num 100],
              [Num 51, Num 2, Num 1, Str ''ready'', Num 101],
              [Num 52, Num 3, Num 2, Str ''sold'', Num 102],
              [Num 53, Num 3, Num 3, Str ''ready'', Num 103],
              [Num 54, Num 4, Num 4, Str ''sold'', Num 104],
              [Num 55, Num 4, Num 5, Str ''ready'', Num 105]]\<rparr>"

definition varied_table :: dataframe where
  "varied_table =
     \<lparr>columns = [(''size'', Float64), (''rooms'', Int64), (''floor'', Float64), (''status'', Object)],
      rows = [[Num 1, Num 2, Num 0, Str ''ready''],
              [Num 3, Num 4, Missing, Str ''sold''],
              [Num 1, Num 2, Num 4, Str ''ready''],
              [Num 3, Num 4, Num 0, Str ''sold''],
              [Num 2, Num 3, Num 4, Missing]]\<rparr>"

definition constant_table :: dataframe where
  "constant_table =
     \<lparr>columns = [(''size'', Float64), (''rooms'', Int64), (''floor'', Float64)],
      rows = [[Num 1, Num 2, Num 0],
              [Num 3, Num 2, Num 4]]\<rparr>"

definition constant_scaled :: dataframe where
  "constant_scaled =
     \<lparr>columns = [(''size'', Float64), (''rooms'', Float64), (''floor'', Float64)],
      rows = [[Num (- 1), Num 0, Num (- 1)],
              [Num 1, Num 0, Num 1]]\<rparr>"

definition two_tables :: heap where
  "two_tables = (\<lambda>a. if a = 0 then raw_listing else split_table)"

definition owner :: preprocessor where
  "owner = \<lparr>df = 0\<rparr>"

definition category_price_table :: dataframe where
  "category_price_table =
     \<lparr>columns = [(''id'', Int64),
                 (''price'', Category {Str ''100000'', Str ''abc'', Str ''250000''})],
      rows = [[Num 1, Str ''100000''], [Num 2, Str ''abc''], [Num 3, Str ''250000'']]\<rparr>"

definition categorical_table :: dataframe where
  "categorical_table =
     \<lparr>columns = [(''price'', Float64), (''size'', Float64), (''rooms'', Float64), (''floor'', Float64),
                 (''status'', Category {Str ''ready'', Str ''sold''}), (''property_type'', Object),
                 (''year_built'', Float64), (''property_condition'', Object)],
      rows = [[Num 300000, Num 40, Num 2, Num 1, Str ''ready'', Str ''flat'', Num 1990, Str ''good''],
              [Num 310000, Num 41, Num 3, Num 2, Str ''sold'', Str ''flat'', Num 1991, Str ''good'']]\<rparr>"

definition priceless_rows :: "cell list list" where
  "priceless_rows =
       [[Num 300000, Num 40, Num 2, Num 1, Str ''ready'', Str ''flat'', Num 1990, Str ''good''],
        [Num 310000, Num 41, Missing, Num 2, Missing, Str ''flat'', Num 1991, Str ''good''],
        [Num 320000, Num 42, Num 3, Missing, Str ''ready'', Str ''flat'', Missing, Missing],
        [Num 330000, Missing, Num 2, Num 4, Str ''ready'', Str ''house'', Num 1993, Str ''good''],
        [Num 340000, Num 44, Num 2, Num 5, Str ''ready'', Str ''flat'', Num 1994, Str ''new''],
        [Num 310000, Num 41, Missing, Num 2, Missing, Str ''flat'', Num 1991, Str ''good''],
        [Num 360000, Num 46, Num 4, Num 7, Str ''ready'', Missing, Num 1996, Str ''good''],
        [Num 370000, Num 47, Num 2, Num 8, Str ''ready'', Str ''flat'', Num 1997, Str ''good''],
        [Num 380000, Num 48, Num 1, Num 9, Str ''ready'', Str ''flat'', Num 1998, Str ''good''],
        [Missing, Num 49, Num 2, Num 10, Str ''ready'', Str ''flat'', Num 1999, Str ''old'']]"

definition priceless_table :: dataframe where
  "priceless_table = raw_table\<lparr>rows := priceless_rows\<rparr>"

definition merging_rows :: "cell list list" where
  "merging_rows =
       [[Num 300000, Num 40, Num 2, Num 1, Str ''ready'', Str ''flat'', Num 1990, Str ''good''],
        [Num 310000, Num 41, Missing, Num 2, Missing, Str ''flat'', Num 1991, Str ''good''],
        [Num 320000, Num 42, Num 3, Missing, Str ''ready'', Str ''flat'', Missing, Missing],
        [Num 330000, Missing, Num 2, Num 4, Str ''ready'', Str ''house'', Num 1993, Str ''good''],
        [Num 340000, Num 44, Num 2, Num 5, Str ''ready'', Str ''flat'', Num 1994, Str ''new''],
        [Num 310000, Num 41, Missing, Num 2, Missing, Str ''flat'', Num 1991, Str ''good''],
        [Num 360000, Num 46, Num 4, Num 7, Str ''ready'', Missing, Num 1996, Str ''good''],
        [Num 370000, Num 47, Num 2, Num 8, Missing, Str ''flat'', Num 1997, Str ''good''],
        [Num 370000, Num 47, Num 2, Num 8, Str ''brak informacji'', Str ''flat'', Num 1997, Str ''good''],
        [Num 390000, Num 49, Num 2, Num 10, Str ''ready'', Str ''flat'', Num 1999, Str ''old'']]"

definition merging_table :: dataframe where
  "merging_table = raw_table\<lparr>rows := merging_rows\<rparr>"

section \<open>Auxiliary facts\<close>

lemma is_category_simps [simp]:
  "is_category (Category cats)" "\<not> is_category Int64" "\<not> is_category Float64"
  "\<not> is_category Object"
  by (simp_all add: is_category_def)

lemma categories_of_simps [simp]:
  "categories_of (Category cats) = cats" "categories_of Int64 = {}" "categories_of Float64 = {}"
  "categories_of Object = {}"
  by (simp_all add: categories_of_def)

lemma bind_Inr [simp]: "bind (Inr x) f = f x"
  by (simp add: bind_def)

lemma bind_Inl [simp]: "bind (Inl e) f = Inl e"
  by (simp add: bind_def)

lemma bind_eq_Inr: "bind m f = Inr y \<longleftrightarrow> (\<exists>x. m = Inr x \<and> f x = Inr y)"
  by (cases m) simp_all

lemma index_of_None: "index_of c xs = None \<longleftrightarrow> c \<notin> set xs"
  by (induction xs) auto

lemma index_of_Some: "index_of c xs = Some i \<Longrightarrow> i < length xs \<and> xs ! i = c"
  by (induction xs arbitrary: i) (auto split: if_splits)

lemma index_of_mem: "c \<in> set xs \<Longrightarrow> \<exists>i. index_of c xs = Some i"
  using index_of_None [of c xs] by (cases "index_of c xs") auto

lemma mapM_Inr: "(\<And>x. x \<in> set xs \<Longrightarrow> f x = Inr (g x)) \<Longrightarrow> mapM f xs = Inr (map g xs)"
  by (induction xs) simp_all

lemma mask_filter: "map fst (filter snd (zip xs (map p xs))) = filter p xs"
  by (induction xs) simp_all

lemma boolean_index_pred: "boolean_index d (map p (rows d)) = d\<lparr>rows := filter p (rows d)\<rparr>"
  by (simp add: boolean_index_def mask_filter)

lemma loc_pos: "c \<in> set (names d) \<Longrightarrow> loc d c = Inr (pos d c)"
  using index_of_mem [of c "names d"] by (auto simp: loc_def pos_def)

lemma getitem_pos:
  "c \<in> set (names d) \<Longrightarrow> getitem d c = Inr (snd (columns d ! pos d c), map (\<lambda>r. r ! pos d c) (rows d))"
  using index_of_mem [of c "names d"] by (auto simp: getitem_def pos_def)

lemma getitem_KeyError: "c \<notin> set (names d) \<Longrightarrow> getitem d c = Inl KeyError"
  by (simp add: getitem_def index_of_None [THEN iffD2])

lemma pos_less: "c \<in> set (names d) \<Longrightarrow> pos d c < length (columns d)"
  using index_of_mem [of c "names d"] index_of_Some [of c "names d"]
  by (auto simp: pos_def names_def)

lemma name_at_pos: "c \<in> set (names d) \<Longrightarrow> fst (columns d ! pos d c) = c"
  using index_of_mem [of c "names d"] index_of_Some [of c "names d"]
  by (auto simp: pos_def names_def)

lemma getitems_pos:
  "set cs \<subseteq> set (names d) \<Longrightarrow>
   getitems d cs = Inr \<lparr>columns = map (\<lambda>c. columns d ! pos d c) cs,
                        rows = map (\<lambda>r. map (\<lambda>c. r ! pos d c) cs) (rows d)\<rparr>"
proof -
  assume sub: "set cs \<subseteq> set (names d)"
  then have "mapM (loc d) cs = Inr (map (pos d) cs)"
    by (intro mapM_Inr loc_pos) auto
  then show ?thesis
    by (simp add: getitems_def comp_def)
qed

lemma getitems_names:
  assumes "set cs \<subseteq> set (names d)" and "getitems d cs = Inr X"
  shows "names X = cs"
proof -
  have "map (\<lambda>c. fst (columns d ! pos d c)) cs = map (\<lambda>c. c) cs"
    using assms(1) by (intro map_cong refl name_at_pos) auto
  moreover have "X = \<lparr>columns = map (\<lambda>c. columns d ! pos d c) cs,
                  rows = map (\<lambda>r. map (\<lambda>c. r ! pos d c) cs) (rows d)\<rparr>"
    using assms getitems_pos [of cs d] by simp
  ultimately show ?thesis
    by (simp add: names_def comp_def)
qed

lemma getitems_KeyError: "\<not> set cs \<subseteq> set (names d) \<Longrightarrow> getitems d cs = Inl KeyError"
proof (induction cs)
  case Nil
  then show ?case by simp
next
  case (Cons c cs)
  show ?case
  proof (cases "c \<in> set (names d)")
    case True
    with Cons have "getitems d cs = Inl KeyError" by simp
    then have "mapM (loc d) cs = Inl KeyError"
      by (cases "mapM (loc d) cs") (auto simp: getitems_def)
    with True show ?thesis by (simp add: getitems_def loc_pos)
  next
    case False
    then show ?thesis
      by (simp add: getitems_def loc_def index_of_None [THEN iffD2])
  qed
qed

lemma getitem_getitems:
  assumes sub: "set cs \<subseteq> set (names d)" and X: "getitems d cs = Inr X" and c: "c \<in> set cs"
  shows "getitem X c = getitem d c"
proof -
  have nX: "names X = cs" using getitems_names [OF sub X] .
  obtain j where j: "index_of c cs = Some j" using index_of_mem [OF c] by blast
  then have jl: "j < length cs" and cj: "cs ! j = c" using index_of_Some by auto
  have pj: "pos X c = j" using j by (simp add: pos_def nX)
  have cd: "c \<in> set (names d)" using sub c by auto
  have Xeq: "X = \<lparr>columns = map (\<lambda>c. columns d ! pos d c) cs,
                  rows = map (\<lambda>r. map (\<lambda>c. r ! pos d c) cs) (rows d)\<rparr>"
    using X getitems_pos [OF sub] by simp
  have "getitem X c = Inr (snd (columns X ! j), map (\<lambda>r. r ! j) (rows X))"
    using getitem_pos [of c X] c nX pj by simp
  also have "\<dots> = Inr (snd (columns d ! pos d c), map (\<lambda>r. r ! pos d c) (rows d))"
    using jl cj by (simp add: Xeq comp_def)
  also have "\<dots> = getitem d c" using getitem_pos [OF cd] by simp
  finally show ?thesis .
qed

lemma map2_same: "map2 f xs (map g xs) = map (\<lambda>x. f x (g x)) xs"
  by (induction xs) simp_all

lemma names_boolean_index [simp]: "names (boolean_index d m) = names d"
  by (simp add: names_def boolean_index_def)

lemma columns_boolean_index [simp]: "columns (boolean_index d m) = columns d"
  by (simp add: boolean_index_def)

lemma pos_boolean_index [simp]: "pos (boolean_index d m) c = pos d c"
  by (simp add: pos_def)

lemma getitem_filter:
  "c \<in> set (names d) \<Longrightarrow>
   getitem (d\<lparr>rows := filter P (rows d)\<rparr>) c =
     Inr (snd (columns d ! pos d c), map (\<lambda>r. r ! pos d c) (filter P (rows d)))"
  using getitem_pos [of c "d\<lparr>rows := filter P (rows d)\<rparr>"]
  by (simp add: names_def pos_def)

lemma setitem_pos:
  "c \<in> set (names d) \<Longrightarrow>
   setitem d c (t, map g (rows d)) =
     d\<lparr>columns := (columns d)[pos d c := (c, t)],
       rows := map (\<lambda>r. r[pos d c := g r]) (rows d)\<rparr>"
  using index_of_mem [of c "names d"]
  by (auto simp: setitem_def pos_def map2_same)

lemma names_update:
  "c \<in> set (names d) \<Longrightarrow> map fst ((columns d)[pos d c := (c, t)]) = names d"
  using name_at_pos [of c d] pos_less [of c d]
  by (simp add: names_def map_update list_update_same_conv)

lemma mapM_lt_cell:
  "(\<And>c. c \<in> set cs \<Longrightarrow> \<forall>s. c \<noteq> Str s) \<Longrightarrow> mapM (lt_cell t) cs = Inr (map (below t) cs)"
proof (rule mapM_Inr)
  fix c assume "\<And>c. c \<in> set cs \<Longrightarrow> \<forall>s. c \<noteq> Str s" and "c \<in> set cs"
  then have "\<forall>s. c \<noteq> Str s" by blast
  then show "lt_cell t c = Inr (below t c)"
    by (cases c) (simp_all add: below_def)
qed

lemma float_cell_numeric:
  assumes "parsers_agree L" and "to_numeric_cell L c \<noteq> Missing"
  shows "\<exists>y. float_cell L c = Inr (Num y) \<and> as_float L c = Num y"
proof (cases c)
  case Missing
  with assms show ?thesis by simp
next
  case (Num x)
  then show ?thesis by (simp add: as_float_def)
next
  case (Str s)
  with assms(2) have "to_numeric_str L s \<noteq> None" by (auto split: option.splits)
  with assms(1) obtain y where "float_str L s = Value y" by (auto simp: parsers_agree_def)
  with Str show ?thesis by (simp add: as_float_def)
qed

lemma process_price_result:
  assumes price: "''price'' \<in> set (names d)" and wf: "wf_frame d" and agree: "parsers_agree L"
    and cats: "\<not> (\<exists>c \<in> categories_of (dtype_of d ''price''). rejects L c)"
  shows "process_price L filter_price d =
           Inr (d\<lparr>columns := (columns d)[pos d ''price'' := (''price'', Float64)],
                  rows := filter (\<lambda>r. filter_price > 0 \<longrightarrow> below filter_price (r ! pos d ''price''))
                            (map (\<lambda>r. r[pos d ''price'' := as_float L (r ! pos d ''price'')])
                               (filter (\<lambda>r. to_numeric_cell L (r ! pos d ''price'') \<noteq> Missing) (rows d)))\<rparr>)"
proof -
  let ?i = "pos d ''price''"
  let ?P = "\<lambda>r. to_numeric_cell L (r ! ?i) \<noteq> Missing"
  let ?g = "\<lambda>r. as_float L (r ! ?i)"
  let ?kept = "filter ?P (rows d)"
  let ?d1 = "d\<lparr>rows := ?kept\<rparr>"
  let ?rows2 = "map (\<lambda>r. r[?i := ?g r]) ?kept"
  let ?d2 = "d\<lparr>columns := (columns d)[?i := (''price'', Float64)], rows := ?rows2\<rparr>"
  have p: "getitem d ''price'' = Inr (snd (columns d ! ?i), map (\<lambda>r. r ! ?i) (rows d))"
    using getitem_pos [OF price] .
  have mask: "notna (to_numeric L (snd (columns d ! ?i), map (\<lambda>r. r ! ?i) (rows d))) = map ?P (rows d)"
    by (simp add: notna_def to_numeric_def comp_def)
  have d1: "boolean_index d (map ?P (rows d)) = ?d1"
    by (rule boolean_index_pred)
  have price1: "''price'' \<in> set (names ?d1)" using price by (simp add: names_def)
  have pos1: "pos ?d1 ''price'' = ?i" by (simp add: pos_def names_def)
  have p1: "getitem ?d1 ''price'' = Inr (snd (columns d ! ?i), map (\<lambda>r. r ! ?i) ?kept)"
    using getitem_filter [OF price] .
  have cast: "astype_float L (snd (columns d ! ?i), map (\<lambda>r. r ! ?i) ?kept) = Inr (Float64, map ?g ?kept)"
  proof -
    have "mapM (float_cell L) (map (\<lambda>r. r ! ?i) ?kept)
            = Inr (map (as_float L) (map (\<lambda>r. r ! ?i) ?kept))"
      using float_cell_numeric [OF agree] by (intro mapM_Inr) force
    then show ?thesis using cats by (simp add: astype_float_def dtype_of_def comp_def)
  qed
  have d2: "setitem ?d1 ''price'' (Float64, map ?g ?kept) = ?d2"
    using setitem_pos [OF price1, of Float64 ?g] by (simp add: pos1)
  have step1: "process_price L filter_price d =
      (if filter_price > 0 then
         bind (getitem ?d2 ''price'') (\<lambda>p3.
         bind (lt_scalar p3 filter_price) (\<lambda>m. Inr (boolean_index ?d2 m)))
       else Inr ?d2)"
    unfolding process_price_def p bind_Inr mask d1 Let_def p1 cast d2 ..
  have price2: "''price'' \<in> set (names ?d2)"
    using price names_update [OF price, of Float64] by (simp add: names_def)
  have pos2: "pos ?d2 ''price'' = ?i"
    using names_update [OF price, of Float64] by (simp add: pos_def names_def)
  have il: "?i < length (columns d)" using pos_less [OF price] .
  have len: "\<And>r. r \<in> set (rows d) \<Longrightarrow> ?i < length r"
    using wf il by (auto simp: wf_frame_def list_all_iff)
  have cells2: "map (\<lambda>r. r ! ?i) ?rows2 = map ?g ?kept"
    using len by (auto simp: comp_def)
  have p3: "getitem ?d2 ''price'' = Inr (Float64, map (\<lambda>r. r ! ?i) ?rows2)"
    using getitem_pos [OF price2] il by (simp add: pos2)
  have lt: "lt_scalar (Float64, map (\<lambda>r. r ! ?i) ?rows2) filter_price
              = Inr (map (\<lambda>r. below filter_price (r ! ?i)) ?rows2)"
  proof -
    have "mapM (lt_cell filter_price) (map ?g ?kept) = Inr (map (below filter_price) (map ?g ?kept))"
      using float_cell_numeric [OF agree] by (intro mapM_lt_cell) force
    then have "mapM (lt_cell filter_price) (map (\<lambda>r. r ! ?i) ?rows2)
                 = Inr (map (below filter_price) (map (\<lambda>r. r ! ?i) ?rows2))"
      unfolding cells2 .
    then show ?thesis
      by (simp add: lt_scalar_def comp_def)
  qed
  have fin: "boolean_index ?d2 (map (\<lambda>r. below filter_price (r ! ?i)) ?rows2)
               = ?d2\<lparr>rows := filter (\<lambda>r. below filter_price (r ! ?i)) ?rows2\<rparr>"
    using boolean_index_pred [of ?d2 "\<lambda>r. below filter_price (r ! ?i)"] by simp
  show ?thesis
  proof (cases "filter_price > 0")
    case True
    have "process_price L filter_price d = Inr (?d2\<lparr>rows := filter (\<lambda>r. below filter_price (r ! ?i)) ?rows2\<rparr>)"
      unfolding step1 p3 bind_Inr lt fin using True by simp
    then show ?thesis using True by simp
  next
    case False
    then show ?thesis
      unfolding step1 by simp
  qed
qed

lemma process_price_ValueError:
  assumes price: "''price'' \<in> set (names d)"
    and cats: "\<exists>c \<in> categories_of (dtype_of d ''price''). rejects L c"
  shows "process_price L filter_price d = Inl ValueError"
proof -
  let ?i = "pos d ''price''"
  let ?P = "\<lambda>r. to_numeric_cell L (r ! ?i) \<noteq> Missing"
  let ?d1 = "d\<lparr>rows := filter ?P (rows d)\<rparr>"
  have p: "getitem d ''price'' = Inr (snd (columns d ! ?i), map (\<lambda>r. r ! ?i) (rows d))"
    using getitem_pos [OF price] .
  have mask: "notna (to_numeric L (snd (columns d ! ?i), map (\<lambda>r. r ! ?i) (rows d))) = map ?P (rows d)"
    by (simp add: notna_def to_numeric_def comp_def)
  have d1: "boolean_index d (map ?P (rows d)) = ?d1"
    by (rule boolean_index_pred)
  have p1: "getitem ?d1 ''price'' = Inr (snd (columns d ! ?i), map (\<lambda>r. r ! ?i) (filter ?P (rows d)))"
    using getitem_filter [OF price] .
  have cast: "astype_float L (snd (columns d ! ?i), map (\<lambda>r. r ! ?i) (filter ?P (rows d))) = Inl ValueError"
    using cats by (simp add: astype_float_def dtype_of_def)
  show ?thesis
    unfolding process_price_def p bind_Inr mask d1 Let_def p1 cast bind_Inl ..
qed

lemma pos_names_cong: "names d' = names d \<Longrightarrow> pos d' c = pos d c"
  by (simp add: pos_def)

lemma pos_inj: "c \<in> set (names d) \<Longrightarrow> c' \<in> set (names d) \<Longrightarrow> pos d c = pos d c' \<Longrightarrow> c = c'"
  by (metis name_at_pos)

lemma fillna_inplace_result:
  assumes c: "c \<in> set (names d)" and ok: "fillable d (c, v)"
  shows "\<exists>t. fillna_inplace c v d =
           Inr (d\<lparr>columns := (columns d)[pos d c := (c, t)],
                  rows := map (\<lambda>r. r[pos d c := fill_cell v (r ! pos d c)]) (rows d)\<rparr>)"
proof -
  let ?i = "pos d c"
  let ?cells = "map (\<lambda>r. r ! ?i) (rows d)"
  let ?t = "snd (columns d ! ?i)"
  have g: "getitem d c = Inr (?t, ?cells)" using getitem_pos [OF c] .
  have acc: "\<not> (is_category ?t \<and> v \<notin> categories_of ?t)"
    using ok by (auto simp: fillable_def dtype_of_def)
  show ?thesis
  proof (cases "Missing \<in> set ?cells")
    case False
    then have "\<And>r. r \<in> set (rows d) \<Longrightarrow> r ! ?i \<noteq> Missing" by force
    then have same: "map (\<lambda>r. r[?i := fill_cell v (r ! ?i)]) (rows d) = map (\<lambda>r. r[?i := r ! ?i]) (rows d)"
      by (intro map_cong refl) (simp add: fill_cell_def)
    from False acc have "fillna v (?t, ?cells) = Inr (?t, ?cells)"
      by (simp add: fillna_def)
    then have "fillna_inplace c v d = Inr (setitem d c (?t, ?cells))"
      by (simp add: fillna_inplace_def g)
    also have "setitem d c (?t, ?cells) =
         d\<lparr>columns := (columns d)[?i := (c, ?t)], rows := map (\<lambda>r. r[?i := r ! ?i]) (rows d)\<rparr>"
      by (rule setitem_pos [OF c])
    finally show ?thesis unfolding same [symmetric] by blast
  next
    case True
    have "fillna v (?t, ?cells) = Inr (fill_dtype v ?t, map (\<lambda>r. fill_cell v (r ! ?i)) (rows d))"
      using True acc by (simp add: fillna_def fill_cell_def comp_def)
    then have "fillna_inplace c v d =
        Inr (setitem d c (fill_dtype v ?t, map (\<lambda>r. fill_cell v (r ! ?i)) (rows d)))"
      by (simp add: fillna_inplace_def g)
    also have "setitem d c (fill_dtype v ?t, map (\<lambda>r. fill_cell v (r ! ?i)) (rows d)) =
         d\<lparr>columns := (columns d)[?i := (c, fill_dtype v ?t)],
           rows := map (\<lambda>r. r[?i := fill_cell v (r ! ?i)]) (rows d)\<rparr>"
      by (rule setitem_pos [OF c])
    finally show ?thesis by blast
  qed
qed

lemma fillna_inplace_TypeError:
  assumes c: "c \<in> set (names d)" and no: "\<not> fillable d (c, v)"
  shows "fillna_inplace c v d = Inl TypeError"
proof -
  have "is_category (snd (columns d ! pos d c)) \<and> v \<notin> categories_of (snd (columns d ! pos d c))"
    using no by (simp add: fillable_def dtype_of_def)
  then show ?thesis
    by (simp add: fillna_inplace_def getitem_pos [OF c] fillna_def)
qed

lemma fill_row_Cons:
  "fill_row d (cv # cvs) r = fill_row d cvs (r[pos d (fst cv) := fill_cell (snd cv) (r ! pos d (fst cv))])"
  by (simp add: fill_row_def)

lemma fill_row_names_cong: "names d' = names d \<Longrightarrow> fill_row d' cvs = fill_row d cvs"
  by (simp add: fill_row_def pos_def fun_eq_iff)

lemma fill_row_other: "j \<notin> pos d ` fst ` set cvs \<Longrightarrow> fill_row d cvs r ! j = r ! j"
  by (induction cvs arbitrary: r) (auto simp: fill_row_Cons fill_row_def)

lemma fillable_after_fill:
  assumes c: "c \<in> set (names d)" and c': "c' \<in> set (names d)" and ne: "c' \<noteq> c"
  shows "fillable (d\<lparr>columns := (columns d)[pos d c := (c, t)], rows := rs\<rparr>) (c', v) = fillable d (c', v)"
proof -
  let ?d1 = "d\<lparr>columns := (columns d)[pos d c := (c, t)], rows := rs\<rparr>"
  have n1: "names ?d1 = names d"
    using names_update [OF c, of t] by (simp add: names_def)
  have pne: "pos d c' \<noteq> pos d c" using pos_inj [OF c' c] ne by blast
  show ?thesis
    using pne pos_names_cong [OF n1, of c'] by (simp add: fillable_def dtype_of_def)
qed

lemma fill_all_result:
  assumes "distinct (map fst cvs)" and "fst ` set cvs \<subseteq> set (names d)"
    and "list_all (fillable d) cvs"
  shows "\<exists>d'. fill_all cvs d = Inr d' \<and> names d' = names d
            \<and> rows d' = map (fill_row d cvs) (rows d)"
  using assms
proof (induction cvs arbitrary: d)
  case Nil
  then show ?case by (simp add: fill_row_def)
next
  case (Cons cv cvs)
  let ?c = "fst cv" and ?v = "snd cv"
  let ?i = "pos d ?c"
  have c: "?c \<in> set (names d)" and ok: "fillable d (?c, ?v)" using Cons.prems by auto
  obtain t where step: "fillna_inplace ?c ?v d =
      Inr (d\<lparr>columns := (columns d)[?i := (?c, t)],
             rows := map (\<lambda>r. r[?i := fill_cell ?v (r ! ?i)]) (rows d)\<rparr>)"
    using fillna_inplace_result [OF c ok] by blast
  let ?d1 = "d\<lparr>columns := (columns d)[?i := (?c, t)],
               rows := map (\<lambda>r. r[?i := fill_cell ?v (r ! ?i)]) (rows d)\<rparr>"
  have n1: "names ?d1 = names d"
    using names_update [OF c, of t] by (simp add: names_def)
  have rest_ok: "list_all (fillable ?d1) cvs"
    unfolding list_all_iff
  proof
    fix cv' assume cv': "cv' \<in> set cvs"
    then have in_d: "fst cv' \<in> set (names d)" and f: "fillable d cv'"
      using Cons.prems by (auto simp: list_all_iff)
    have "?c \<notin> fst ` set cvs" using Cons.prems(1) by simp
    with cv' have ne: "fst cv' \<noteq> ?c" by (metis image_eqI)
    have "fillable ?d1 (fst cv', snd cv') = fillable d (fst cv', snd cv')"
      by (rule fillable_after_fill [OF c in_d ne])
    then show "fillable ?d1 cv'" using f by simp
  qed
  have "\<exists>d'. fill_all cvs ?d1 = Inr d' \<and> names d' = names ?d1
            \<and> rows d' = map (fill_row ?d1 cvs) (rows ?d1)"
    using Cons.prems rest_ok by (intro Cons.IH) (auto simp: n1)
  then obtain d' where d': "fill_all cvs ?d1 = Inr d'" "names d' = names ?d1"
      "rows d' = map (fill_row ?d1 cvs) (rows ?d1)" by blast
  have "rows d' = map (fill_row d (cv # cvs)) (rows d)"
    using d'(3) by (simp add: fill_row_names_cong [OF n1] fill_row_Cons comp_def)
  then show ?case using d' step n1 by simp
qed

lemma fill_all_TypeError:
  assumes "distinct (map fst cvs)" and "fst ` set cvs \<subseteq> set (names d)"
    and "\<not> list_all (fillable d) cvs"
  shows "fill_all cvs d = Inl TypeError"
  using assms
proof (induction cvs arbitrary: d)
  case Nil
  then show ?case by simp
next
  case (Cons cv cvs)
  let ?c = "fst cv" and ?v = "snd cv"
  let ?i = "pos d ?c"
  have c: "?c \<in> set (names d)" using Cons.prems by auto
  show ?case
  proof (cases "fillable d (?c, ?v)")
    case False
    then show ?thesis using fillna_inplace_TypeError [OF c] by simp
  next
    case True
    obtain t where step: "fillna_inplace ?c ?v d =
        Inr (d\<lparr>columns := (columns d)[?i := (?c, t)],
               rows := map (\<lambda>r. r[?i := fill_cell ?v (r ! ?i)]) (rows d)\<rparr>)"
      using fillna_inplace_result [OF c True] by blast
    let ?d1 = "d\<lparr>columns := (columns d)[?i := (?c, t)],
                 rows := map (\<lambda>r. r[?i := fill_cell ?v (r ! ?i)]) (rows d)\<rparr>"
    have n1: "names ?d1 = names d"
      using names_update [OF c, of t] by (simp add: names_def)
    from True Cons.prems(3) obtain cv' where cv': "cv' \<in> set cvs" "\<not> fillable d cv'"
      by (auto simp: list_all_iff)
    have "?c \<notin> fst ` set cvs" using Cons.prems(1) by simp
    with cv'(1) have ne: "fst cv' \<noteq> ?c" by (metis image_eqI)
    have in_d: "fst cv' \<in> set (names d)" using cv'(1) Cons.prems(2) by auto
    have "fillable ?d1 (fst cv', snd cv') = fillable d (fst cv', snd cv')"
      by (rule fillable_after_fill [OF c in_d ne])
    then have "\<not> fillable ?d1 cv'" using cv'(2) by simp
    then have "\<not> list_all (fillable ?d1) cvs" using cv'(1) by (auto simp: list_all_iff)
    then have "fill_all cvs ?d1 = Inl TypeError"
      using Cons.prems by (intro Cons.IH) (auto simp: n1)
    then show ?thesis by (simp add: step)
  qed
qed

lemma handle_missing_fill_all:
  "handle_missing_and_duplicated_values d =
     bind (fill_all fill_values d) (\<lambda>d6.
     let d7 = drop_duplicates d6 in
     bind (getitem d7 ''price'') (\<lambda>p.
     let d8 = boolean_index d7 (notna p) in
     bind (getitem d8 ''size'') (\<lambda>s.
     Inr (boolean_index d8 (notna s)))))"
  by (simp add: handle_missing_and_duplicated_values_def fill_values_def bind_def
      split: sum.splits)

lemma notna_filter:
  assumes c: "c \<in> set (names d)"
  shows "\<exists>s. getitem d c = Inr s
           \<and> boolean_index d (notna s) = d\<lparr>rows := filter (\<lambda>r. \<not> is_missing d c r) (rows d)\<rparr>"
proof -
  have "notna (snd (columns d ! pos d c), map (\<lambda>r. r ! pos d c) (rows d))
          = map (\<lambda>r. \<not> is_missing d c r) (rows d)"
    by (simp add: notna_def is_missing_def comp_def)
  then show ?thesis
    by (simp add: getitem_pos [OF c] boolean_index_pred)
qed

lemma handle_missing_result:
  assumes present: "set [''floor'', ''status'', ''property_type'', ''rooms'', ''year_built'',
                         ''property_condition'', ''price'', ''size''] \<subseteq> set (names d)"
      and ok: "list_all (fillable d) fill_values"
  shows "\<exists>d'. handle_missing_and_duplicated_values d = Inr d' \<and> names d' = names d
           \<and> rows d' = filter (\<lambda>r. \<not> is_missing d ''size'' r)
                         (filter (\<lambda>r. \<not> is_missing d ''price'' r)
                            (rev (remdups (rev (map (fill_row d fill_values) (rows d))))))"
proof -
  have "\<exists>d6. fill_all fill_values d = Inr d6 \<and> names d6 = names d
            \<and> rows d6 = map (fill_row d fill_values) (rows d)"
    using present ok by (intro fill_all_result) (auto simp: fill_values_def)
  then obtain d6 where d6: "fill_all fill_values d = Inr d6" "names d6 = names d"
      "rows d6 = map (fill_row d fill_values) (rows d)" by blast
  let ?d7 = "drop_duplicates d6"
  have n7: "names ?d7 = names d" using d6(2) by (simp add: drop_duplicates_def names_def)
  have r7: "rows ?d7 = rev (remdups (rev (map (fill_row d fill_values) (rows d))))"
    using d6(3) by (simp add: drop_duplicates_def)
  let ?d8 = "?d7\<lparr>rows := filter (\<lambda>r. \<not> is_missing ?d7 ''price'' r) (rows ?d7)\<rparr>"
  have n8: "names ?d8 = names d" using n7 by (simp add: names_def)
  have m7: "\<And>c. is_missing ?d7 c = is_missing d c"
    using pos_names_cong [OF n7] by (simp add: is_missing_def fun_eq_iff)
  have m8: "\<And>c. is_missing ?d8 c = is_missing d c"
    using pos_names_cong [OF n8] by (simp add: is_missing_def fun_eq_iff)
  have price7: "''price'' \<in> set (names ?d7)" and size8: "''size'' \<in> set (names ?d8)"
    using present n7 n8 by auto
  let ?d9 = "?d8\<lparr>rows := filter (\<lambda>r. \<not> is_missing ?d8 ''size'' r) (rows ?d8)\<rparr>"
  obtain p where p: "getitem ?d7 ''price'' = Inr p" "boolean_index ?d7 (notna p) = ?d8"
    using notna_filter [OF price7] by blast
  obtain s where s: "getitem ?d8 ''size'' = Inr s" "boolean_index ?d8 (notna s) = ?d9"
    using notna_filter [OF size8] by blast
  have "handle_missing_and_duplicated_values d = Inr ?d9"
    unfolding handle_missing_fill_all d6(1) bind_Inr Let_def p s ..
  moreover have "names ?d9 = names d" using n8 by (simp add: names_def)
  moreover have "rows ?d9 = filter (\<lambda>r. \<not> is_missing d ''size'' r)
                         (filter (\<lambda>r. \<not> is_missing d ''price'' r)
                            (rev (remdups (rev (map (fill_row d fill_values) (rows d))))))"
    unfolding m8 by (simp add: m7 r7)
  ultimately show ?thesis by blast
qed

lemma handle_missing_TypeError:
  assumes present: "set [''floor'', ''status'', ''property_type'', ''rooms'', ''year_built'',
                         ''property_condition'', ''price'', ''size''] \<subseteq> set (names d)"
      and no: "\<not> list_all (fillable d) fill_values"
  shows "handle_missing_and_duplicated_values d = Inl TypeError"
proof -
  have "fill_all fill_values d = Inl TypeError"
    using present no by (intro fill_all_TypeError) (auto simp: fill_values_def)
  then show ?thesis by (simp add: handle_missing_fill_all)
qed

lemma fill_row_keeps:
  assumes c: "c \<in> set (names d)" and sub: "fst ` set cvs \<subseteq> set (names d)" and nc: "c \<notin> fst ` set cvs"
  shows "is_missing d c (fill_row d cvs r) = is_missing d c r"
proof -
  have "pos d c \<notin> pos d ` fst ` set cvs"
  proof
    assume "pos d c \<in> pos d ` fst ` set cvs"
    then obtain c' where c': "c' \<in> fst ` set cvs" "pos d c = pos d c'" by blast
    then have "c = c'" using pos_inj [OF c] sub by blast
    with c'(1) nc show False by simp
  qed
  then show ?thesis by (simp add: is_missing_def fill_row_other)
qed

lemma scenario_count:
  assumes nine: "length (remdups R) = 9"
    and one: "length (filter m R) = 1"
    and nop: "\<not> list_ex q R"
    and dist: "distinct (map f (remdups R))"
    and mf: "\<And>r. m (f r) = m r" and qf: "\<And>r. q (f r) = q r"
  shows "length (filter (\<lambda>r. \<not> m r) (filter (\<lambda>r. \<not> q r) (rev (remdups (rev (map f R)))))) = 8"
proof -
  let ?D = "rev (remdups (rev (map f R)))"
  have setD: "set ?D = f ` set R" by simp
  have dD: "distinct ?D" by simp
  have inj: "inj_on f (set R)" using dist by (simp add: distinct_map)
  have "length ?D = card (f ` set R)" using distinct_card [OF dD] setD by simp
  also have "\<dots> = card (set R)" using inj by (rule card_image)
  also have "\<dots> = 9" using nine by (simp add: length_remdups_card_conv)
  finally have lD: "length ?D = 9" .
  have "\<forall>x \<in> set ?D. \<not> q x"
    using nop qf by (auto simp: list_ex_iff)
  then have fq: "filter (\<lambda>r. \<not> q r) ?D = ?D" by (rule filter_True)
  obtain a where a: "filter m R = [a]" using one by (cases "filter m R") auto
  have M: "{r \<in> set R. m r} = {a}" using a by (metis set_filter list.simps(15) empty_set)
  have "{x \<in> set ?D. m x} = f ` {r \<in> set R. m r}" using mf by auto
  then have "card {x \<in> set ?D. m x} = card (f ` {a})" unfolding M by simp
  then have cm: "card {x \<in> set ?D. m x} = 1" by simp
  have "length (filter m ?D) = card {x \<in> set ?D. m x}"
    using distinct_card [of "filter m ?D"] dD by (simp del: set_rev set_remdups)
  then have "length (filter m ?D) = 1" using cm by simp
  moreover have "length (filter m ?D) + length (filter (\<lambda>r. \<not> m r) ?D) = length ?D"
    by (rule sum_length_filter_compl)
  ultimately have "length (filter (\<lambda>r. \<not> m r) ?D) = 8" using lD by simp
  then show ?thesis unfolding fq .
qed

lemma mapM_lt_cell_text: "\<exists>c \<in> set cs. is_text c \<Longrightarrow> mapM (lt_cell t) cs = Inl TypeError"
proof (induction cs)
  case Nil
  then show ?case by simp
next
  case (Cons c cs)
  show ?case
  proof (cases c)
    case (Str s)
    then show ?thesis by simp
  next
    case Missing
    with Cons have "mapM (lt_cell t) cs = Inl TypeError" by (auto simp: is_text_def)
    with Missing show ?thesis by simp
  next
    case (Num x)
    with Cons have "mapM (lt_cell t) cs = Inl TypeError" by (auto simp: is_text_def)
    with Num show ?thesis by simp
  qed
qed

lemma lt_filter:
  assumes c: "c \<in> set (names d)"
  shows "bind (getitem d c) (\<lambda>s. bind (lt_scalar s t) (\<lambda>m. Inr (boolean_index d m))) =
     (if is_category (snd (columns d ! pos d c)) \<or> list_ex (\<lambda>r. is_text (r ! pos d c)) (rows d)
      then Inl TypeError
      else Inr (d\<lparr>rows := filter (\<lambda>r. below t (r ! pos d c)) (rows d)\<rparr>))"
proof -
  let ?i = "pos d c"
  let ?cells = "map (\<lambda>r. r ! ?i) (rows d)"
  have g: "getitem d c = Inr (snd (columns d ! ?i), ?cells)" using getitem_pos [OF c] .
  show ?thesis
  proof (cases "is_category (snd (columns d ! ?i))")
    case True
    then show ?thesis by (simp add: g lt_scalar_def)
  next
    case nc: False
    show ?thesis
    proof (cases "list_ex (\<lambda>r. is_text (r ! ?i)) (rows d)")
      case True
      then have "\<exists>c \<in> set ?cells. is_text c" by (auto simp: list_ex_iff)
      then have "mapM (lt_cell t) ?cells = Inl TypeError" by (rule mapM_lt_cell_text)
      then show ?thesis using True nc by (simp add: g lt_scalar_def)
    next
      case False
      then have "\<And>x. x \<in> set ?cells \<Longrightarrow> \<forall>s. x \<noteq> Str s"
        by (auto simp: list_ex_iff is_text_def)
      then have "mapM (lt_cell t) ?cells = Inr (map (below t) ?cells)" by (rule mapM_lt_cell)
      then have "lt_scalar (snd (columns d ! ?i), ?cells) t = Inr (map (\<lambda>r. below t (r ! ?i)) (rows d))"
        using nc by (simp add: lt_scalar_def comp_def)
      then show ?thesis using False nc by (simp add: g boolean_index_pred)
    qed
  qed
qed

lemma getitems_getitems:
  assumes sub: "set cs \<subseteq> set (names d)" and X: "getitems d cs = Inr X" and sub': "set cs' \<subseteq> set cs"
  shows "getitems X cs' = getitems d cs'"
proof -
  have nX: "names X = cs" using getitems_names [OF sub X] .
  have Xeq: "X = \<lparr>columns = map (\<lambda>c. columns d ! pos d c) cs,
                  rows = map (\<lambda>r. map (\<lambda>c. r ! pos d c) cs) (rows d)\<rparr>"
    using X getitems_pos [OF sub] by simp
  have at: "\<And>c. c \<in> set cs' \<Longrightarrow> pos X c < length cs \<and> cs ! pos X c = c"
  proof -
    fix c assume "c \<in> set cs'"
    then have "c \<in> set cs" using sub' by auto
    then obtain j where "index_of c cs = Some j" using index_of_mem by blast
    then show "pos X c < length cs \<and> cs ! pos X c = c"
      using index_of_Some [of c cs j] by (simp add: pos_def nX)
  qed
  have c1: "map (\<lambda>c. columns X ! pos X c) cs' = map (\<lambda>c. columns d ! pos d c) cs'"
    using at by (intro map_cong refl) (simp add: Xeq)
  have c2: "map (\<lambda>r. map (\<lambda>c. r ! pos X c) cs') (rows X) = map (\<lambda>r. map (\<lambda>c. r ! pos d c) cs') (rows d)"
    using at by (simp add: Xeq comp_def)
  have "set cs' \<subseteq> set (names X)" using sub' nX by simp
  then have "getitems X cs' = Inr \<lparr>columns = map (\<lambda>c. columns X ! pos X c) cs',
                        rows = map (\<lambda>r. map (\<lambda>c. r ! pos X c) cs') (rows X)\<rparr>"
    by (rule getitems_pos)
  also have "\<dots> = getitems d cs'"
    unfolding c1 c2 using getitems_pos [of cs' d] sub sub' by auto
  finally show ?thesis .
qed

lemma getitems_Inr_sub: "getitems d cs = Inr X \<Longrightarrow> set cs \<subseteq> set (names d)"
  using getitems_KeyError [of cs d] by auto

lemma getitem_Inr_mem: "getitem d c = Inr s \<Longrightarrow> c \<in> set (names d)"
  using getitem_KeyError [of c d] by auto

lemma names_iloc [simp]: "names (iloc X ps) = names X"
  by (simp add: iloc_def names_def)

lemma sk_split_names:
  "sk_train_test_split L X y seed = Inr (X1, X2, y1, y2) \<Longrightarrow> names X1 = names X \<and> names X2 = names X"
  by (auto simp: sk_train_test_split_def Let_def split: if_splits)

lemma upt6: "[0..<6] = [0, 1, 2, 3, 4, 5]"
  by (simp add: upt_rec)

lemma valid_rng_length: "valid_rng L \<Longrightarrow> length (permutation L seed n) = n"
proof -
  assume v: "valid_rng L"
  then have "distinct (permutation L seed n)" and "set (permutation L seed n) = {0..<n}"
    by (simp_all add: valid_rng_def)
  then show ?thesis using distinct_card [of "permutation L seed n"] by simp
qed

lemma getitems_rows_length: "getitems d cs = Inr X \<Longrightarrow> length (rows X) = length (rows d)"
  using getitems_pos [of cs d] getitems_Inr_sub [of d cs X] by auto

lemma n_test_bounds: "n \<le> 5 * n_test_of n \<and> 5 * n_test_of n < n + 5"
  by (simp add: n_test_of_def) presburger

lemma static_astype_loop_refines:
  "static_astype_loop f cs a h = (h', r) \<Longrightarrow>
     (\<forall>b. b \<noteq> a \<longrightarrow> h' b = h b)
     \<and> (case r of None \<Rightarrow> astype_loop f cs (h a) = Inr (h' a)
                 | Some e \<Rightarrow> astype_loop f cs (h a) = Inl e)"
proof (induction cs arbitrary: h)
  case Nil
  then show ?case by auto
next
  case (Cons c cs)
  show ?case
  proof (cases "bind (getitem (h a) c) f")
    case (Inl e)
    with Cons.prems have "h' = h" "r = Some e" by auto
    moreover have "astype_loop f (c # cs) (h a) = Inl e"
      using Inl by (cases "getitem (h a) c") auto
    ultimately show ?thesis by simp
  next
    case (Inr s')
    let ?h1 = "h(a := setitem (h a) c s')"
    from Inr Cons.prems have run: "static_astype_loop f cs a ?h1 = (h', r)" by simp
    from Inr obtain s where s: "getitem (h a) c = Inr s" "f s = Inr s'"
      by (auto simp: bind_eq_Inr)
    have step: "astype_loop f (c # cs) (h a) = astype_loop f cs (?h1 a)"
      using s by simp
    from Cons.IH [OF run] show ?thesis
      unfolding step by auto
  qed
qed

lemma static_cast_types_refines_aux:
  assumes "static_cast_types cfg L a h = (h', r)"
  shows "(\<forall>b. b \<noteq> a \<longrightarrow> h' b = h b)
       \<and> (case r of Inr b \<Rightarrow> b = a \<and> cast_types cfg L (h a) = Inr (h' a)
                   | Inl e \<Rightarrow> cast_types cfg L (h a) = Inl e)"
proof -
  obtain h1 r1 where l1: "static_astype_loop (astype_float L) (NUMERIC_FEATS cfg) a h = (h1, r1)"
    by (cases "static_astype_loop (astype_float L) (NUMERIC_FEATS cfg) a h")
  note f1 = static_astype_loop_refines [OF l1]
  show ?thesis
  proof (cases r1)
    case (Some e)
    then have "h' = h1" "r = Inl e" using assms l1 by (simp_all add: static_cast_types_def)
    then show ?thesis using f1 Some by (simp add: cast_types_def)
  next
    case None
    obtain h2 r2 where l2: "static_astype_loop astype_category (CATEGORICAL_FEATS cfg) a h1 = (h2, r2)"
      by (cases "static_astype_loop astype_category (CATEGORICAL_FEATS cfg) a h1")
    note f2 = static_astype_loop_refines [OF l2]
    have c1: "cast_types cfg L (h a) = astype_loop astype_category (CATEGORICAL_FEATS cfg) (h1 a)"
      using f1 None by (simp add: cast_types_def)
    show ?thesis
    proof (cases r2)
      case (Some e)
      then have "h' = h2" "r = Inl e" using assms l1 l2 None by (simp_all add: static_cast_types_def)
      then show ?thesis using f1 f2 Some by (simp add: c1)
    next
      case n2: None
      then have "h' = h2" "r = Inr a" using assms l1 l2 None by (simp_all add: static_cast_types_def)
      then show ?thesis using f1 f2 n2 by (simp add: c1)
    qed
  qed
qed

lemma columns_setitem:
  "c \<in> set (names d) \<Longrightarrow> columns (setitem d c s) = (columns d)[pos d c := (c, fst s)]"
  using index_of_mem [of c "names d"] by (auto simp: setitem_def pos_def)

lemma names_setitem: "c \<in> set (names d) \<Longrightarrow> names (setitem d c s) = names d"
  using names_update [of c d "fst s"] by (simp add: names_def columns_setitem)

lemma dtype_of_setitem_same:
  "c \<in> set (names d) \<Longrightarrow> dtype_of (setitem d c s) c = fst s"
  using pos_less [of c d] pos_names_cong [OF names_setitem, of c d s c]
  by (simp add: dtype_of_def columns_setitem)

lemma dtype_of_setitem_other:
  assumes "c \<in> set (names d)" "c' \<in> set (names d)" "c' \<noteq> c"
  shows "dtype_of (setitem d c s) c' = dtype_of d c'"
proof -
  have "pos d c' \<noteq> pos d c" using pos_inj [OF assms(2) assms(1)] assms(3) by blast
  then show ?thesis
    using pos_names_cong [OF names_setitem [OF assms(1)], of s c']
    by (simp add: dtype_of_def columns_setitem [OF assms(1)])
qed

lemma astype_loop_dtypes:
  assumes f: "\<forall>s s'. f s = Inr s' \<longrightarrow> P (fst s')"
    and run: "astype_loop f cs d = Inr d'"
  shows "names d' = names d \<and> set cs \<subseteq> set (names d)
       \<and> (\<forall>c \<in> set cs. P (dtype_of d' c))
       \<and> (\<forall>c \<in> set (names d) - set cs. dtype_of d' c = dtype_of d c)"
  using run
proof (induction cs arbitrary: d)
  case Nil
  then show ?case by simp
next
  case (Cons c cs)
  from Cons.prems obtain s s' where s: "getitem d c = Inr s" "f s = Inr s'"
    and rest: "astype_loop f cs (setitem d c s') = Inr d'"
    by (auto simp: bind_eq_Inr)
  let ?d1 = "setitem d c s'"
  have c: "c \<in> set (names d)" using s(1) by (rule getitem_Inr_mem)
  have n1: "names ?d1 = names d" using names_setitem [OF c] .
  have t: "P (fst s')" using f s(2) by blast
  note IH = Cons.IH [OF rest]
  have a: "names d' = names d" using IH n1 by simp
  have b: "set (c # cs) \<subseteq> set (names d)" using IH n1 c by simp
  have e: "\<forall>x \<in> set (names d) - set (c # cs). dtype_of d' x = dtype_of d x"
  proof
    fix x assume x: "x \<in> set (names d) - set (c # cs)"
    then have "dtype_of d' x = dtype_of ?d1 x" using IH n1 by simp
    also have "\<dots> = dtype_of d x" using dtype_of_setitem_other [OF c, of x s'] x by simp
    finally show "dtype_of d' x = dtype_of d x" .
  qed
  have "P (dtype_of d' c)"
  proof (cases "c \<in> set cs")
    case True
    then show ?thesis using IH by simp
  next
    case False
    then have "dtype_of d' c = dtype_of ?d1 c" using IH n1 c by simp
    then show ?thesis using dtype_of_setitem_same [OF c, of s'] t by simp
  qed
  then have g: "\<forall>x \<in> set (c # cs). P (dtype_of d' x)" using IH by simp
  show ?case using a b g e by blast
qed

lemma cast_types_dtypes:
  assumes "cast_types cfg L d = Inr d'"
  shows "(\<forall>c \<in> set (NUMERIC_FEATS cfg) - set (CATEGORICAL_FEATS cfg). dtype_of d' c = Float64)
       \<and> (\<forall>c \<in> set (CATEGORICAL_FEATS cfg). is_category (dtype_of d' c))"
proof -
  from assms obtain d1 where d1: "astype_loop (astype_float L) (NUMERIC_FEATS cfg) d = Inr d1"
    and d2: "astype_loop astype_category (CATEGORICAL_FEATS cfg) d1 = Inr d'"
    by (auto simp: cast_types_def bind_eq_Inr)
  have f1: "\<forall>s s'. astype_float L s = Inr s' \<longrightarrow> fst s' = Float64"
    by (auto simp: astype_float_def bind_eq_Inr split: if_splits)
  have f2: "\<forall>s s'. astype_category s = Inr s' \<longrightarrow> is_category (fst s')"
    by (auto simp: astype_category_def is_category_def)
  note a1 = astype_loop_dtypes [where P = "\<lambda>t. t = Float64", OF f1 d1]
  note a2 = astype_loop_dtypes [where P = is_category, OF f2 d2]
  show ?thesis using a1 a2 by auto
qed

lemma cast_raw_listing: "cast_types listing_config plain_library raw_listing = Inr cast_listing"
  by (simp add: cast_types_def astype_float_def astype_category_def getitem_def setitem_def
      names_def listing_config_def raw_listing_def cast_listing_def insert_Diff_if)

lemma static_two_tables:
  "static_cast_types listing_config plain_library 0 two_tables = (two_tables(0 := cast_listing), Inr 0)"
  by (simp add: static_cast_types_def two_tables_def astype_float_def astype_category_def
      getitem_def setitem_def names_def listing_config_def raw_listing_def cast_listing_def
      insert_Diff_if)

lemma sum_list_affine:
  "sum_list (map (\<lambda>x. (x - m) / s) xs) = (sum_list xs - real (length xs) * m) / (s::real)"
  by (induction xs) (simp_all add: add_divide_distrib diff_divide_distrib algebra_simps)

lemma mean_scaled:
  assumes "xs \<noteq> []"
  shows "mean (map (\<lambda>x. (x - mean xs) / s) xs) = 0"
proof -
  have "real (length xs) \<noteq> 0" using assms by simp
  then have "sum_list xs - real (length xs) * mean xs = 0" by (simp add: mean_def)
  then show ?thesis by (simp add: mean_def sum_list_affine)
qed

lemma sum_list_sq_scaled:
  "sum_list (map (\<lambda>x. (x / s)\<^sup>2) ys) = sum_list (map (\<lambda>x. x\<^sup>2) ys) / (s::real)\<^sup>2"
  by (induction ys) (simp_all add: power_divide add_divide_distrib)

lemma variance_nonneg: "0 \<le> variance xs"
proof -
  have "0 \<le> sum_list (map (\<lambda>x. (x - mean xs)\<^sup>2) xs)"
    by (rule sum_list_nonneg) auto
  then show ?thesis by (simp add: variance_def)
qed

lemma variance_scaled:
  assumes "xs \<noteq> []"
  shows "variance (map (\<lambda>x. (x - mean xs) / s) xs) = variance xs / s\<^sup>2"
proof -
  let ?ys = "map (\<lambda>x. (x - mean xs) / s) xs"
  have m0: "mean ?ys = 0" using mean_scaled [OF assms] .
  have "sum_list (map (\<lambda>y. (y - mean ?ys)\<^sup>2) ?ys) = sum_list (map (\<lambda>x. ((x - mean xs) / s)\<^sup>2) xs)"
    unfolding m0 by (simp add: comp_def)
  also have "\<dots> = sum_list (map (\<lambda>x. (x / s)\<^sup>2) (map (\<lambda>x. x - mean xs) xs))"
    by (simp add: comp_def)
  also have "\<dots> = sum_list (map (\<lambda>x. x\<^sup>2) (map (\<lambda>x. x - mean xs) xs)) / s\<^sup>2"
    by (rule sum_list_sq_scaled)
  also have "\<dots> = sum_list (map (\<lambda>x. (x - mean xs)\<^sup>2) xs) / s\<^sup>2"
    by (simp add: comp_def)
  finally show ?thesis by (simp add: variance_def)
qed

lemma exact_scale_moments:
  assumes "xs \<noteq> []"
  shows "mean (exact_scale xs) = 0" and "variance xs \<noteq> 0 \<Longrightarrow> variance (exact_scale xs) = 1"
proof -
  show "mean (exact_scale xs) = 0" unfolding exact_scale_def using mean_scaled [OF assms] .
  have v: "variance (exact_scale xs) = variance xs / (exact_factor xs)\<^sup>2"
    unfolding exact_scale_def using variance_scaled [OF assms] .
  show "variance xs \<noteq> 0 \<Longrightarrow> variance (exact_scale xs) = 1"
    using variance_nonneg [of xs] by (simp add: v exact_factor_def)
qed

lemma all_equal_replicate: "all_equal xs \<longleftrightarrow> xs = replicate (length xs) (hd xs)"
proof
  assume "all_equal xs"
  then have "\<forall>x \<in> set xs. x = hd xs" by (simp add: all_equal_def list_all_iff)
  then show "xs = replicate (length xs) (hd xs)"
    by (simp add: replicate_length_same)
next
  assume "xs = replicate (length xs) (hd xs)"
  then have "set xs \<subseteq> {hd xs}" by (metis set_replicate_conv_if empty_subsetI subset_refl)
  then show "all_equal xs" by (auto simp: all_equal_def list_all_iff)
qed

lemma mean_replicate: "0 < n \<Longrightarrow> mean (replicate n (c::real)) = c"
  by (simp add: mean_def sum_list_replicate)

lemma variance_all_equal:
  assumes "all_equal xs"
  shows "variance xs = 0"
proof (cases "xs = []")
  case True
  then show ?thesis by (simp add: variance_def)
next
  case False
  then have n: "0 < length xs" by simp
  have r: "xs = replicate (length xs) (hd xs)" using assms by (simp add: all_equal_replicate [symmetric])
  have m: "mean xs = hd xs" using mean_replicate [OF n, of "hd xs"] r by simp
  have "map (\<lambda>x. (x - mean xs)\<^sup>2) xs = map (\<lambda>x. (x - hd xs)\<^sup>2) (replicate (length xs) (hd xs))"
    unfolding m using r by simp
  also have "\<dots> = replicate (length xs) 0" by simp
  finally show ?thesis by (simp add: variance_def sum_list_replicate)
qed

lemma all_equal_map: "all_equal xs \<Longrightarrow> all_equal (map f xs)"
proof -
  assume "all_equal xs"
  then have "xs = replicate (length xs) (hd xs)" by (simp add: all_equal_replicate [symmetric])
  then have "map f xs = replicate (length xs) (f (hd xs))" by (metis map_replicate)
  then show ?thesis
    by (metis all_equal_replicate hd_replicate length_replicate replicate_empty)
qed

lemma plain_scaler_within: "0 \<le> tol \<Longrightarrow> scaler_within plain_library tol"
proof -
  assume tol: "0 \<le> tol"
  have "\<And>xs. xs \<noteq> [] \<Longrightarrow>
        length (exact_scale xs) = length xs
        \<and> \<bar>mean (exact_scale xs)\<bar> \<le> tol
        \<and> (\<not> variance xs = 0 \<longrightarrow> \<bar>variance (exact_scale xs) - 1\<bar> \<le> tol)
        \<and> (all_equal xs \<longrightarrow> variance xs = 0 \<and> all_equal (exact_scale xs))"
  proof -
    fix xs :: "real list" assume ne: "xs \<noteq> []"
    have "length (exact_scale xs) = length xs" by (simp add: exact_scale_def)
    moreover have "\<bar>mean (exact_scale xs)\<bar> \<le> tol" using exact_scale_moments(1) [OF ne] tol by simp
    moreover have "\<not> variance xs = 0 \<longrightarrow> \<bar>variance (exact_scale xs) - 1\<bar> \<le> tol"
      using exact_scale_moments(2) [OF ne] tol by simp
    moreover have "all_equal xs \<longrightarrow> variance xs = 0 \<and> all_equal (exact_scale xs)"
      using variance_all_equal all_equal_map by (auto simp: exact_scale_def)
    ultimately show "length (exact_scale xs) = length xs
        \<and> \<bar>mean (exact_scale xs)\<bar> \<le> tol
        \<and> (\<not> variance xs = 0 \<longrightarrow> \<bar>variance (exact_scale xs) - 1\<bar> \<le> tol)
        \<and> (all_equal xs \<longrightarrow> variance xs = 0 \<and> all_equal (exact_scale xs))"
      by blast
  qed
  then show ?thesis by (simp add: scaler_within_def plain_library_def)
qed

lemma length_put_back [simp]: "length (put_back ys cs) = length cs"
  by (induction ys cs rule: put_back.induct) simp_all

lemma nums_put_back: "length ys = length (nums cs) \<Longrightarrow> nums (put_back ys cs) = ys"
  by (induction ys cs rule: put_back.induct) (auto simp: nums_def split: cell.splits)

lemma rows_setitem:
  "c \<in> set (names d) \<Longrightarrow> rows (setitem d c s) = map2 (\<lambda>r v. r[pos d c := v]) (rows d) (snd s)"
  using index_of_mem [of c "names d"] by (auto simp: setitem_def pos_def)

lemma wf_setitem:
  assumes c: "c \<in> set (names d)" and wf: "wf_frame d"
  shows "wf_frame (setitem d c s)"
proof -
  have "\<And>r v. (r, v) \<in> set (zip (rows d) (snd s)) \<Longrightarrow> length r = length (columns d)"
    using wf by (auto simp: wf_frame_def list_all_iff dest: set_zip_leftD)
  then show ?thesis
    by (auto simp: wf_frame_def list_all_iff rows_setitem [OF c] columns_setitem [OF c])
qed

lemma length_rows_setitem:
  "c \<in> set (names d) \<Longrightarrow> length (snd s) = length (rows d) \<Longrightarrow>
   length (rows (setitem d c s)) = length (rows d)"
  by (simp add: rows_setitem)

lemma cells_setitem_same:
  assumes c: "c \<in> set (names d)" and wf: "wf_frame d" and len: "length (snd s) = length (rows d)"
  shows "cells_of (setitem d c s) c = snd s"
proof -
  have il: "pos d c < length (columns d)" using pos_less [OF c] .
  have "\<And>r v. (r, v) \<in> set (zip (rows d) (snd s)) \<Longrightarrow> r[pos d c := v] ! pos d c = v"
    using wf il by (auto simp: wf_frame_def list_all_iff dest: set_zip_leftD)
  then have "map (\<lambda>(r, v). r[pos d c := v] ! pos d c) (zip (rows d) (snd s))
               = map snd (zip (rows d) (snd s))"
    by (intro map_cong refl) auto
  then show ?thesis
    using len pos_names_cong [OF names_setitem [OF c], of s c]
    by (simp add: cells_of_def rows_setitem [OF c] comp_def case_prod_unfold)
qed

lemma cells_setitem_other:
  assumes c: "c \<in> set (names d)" and c': "c' \<in> set (names d)" and ne: "c' \<noteq> c"
    and len: "length (snd s) = length (rows d)"
  shows "cells_of (setitem d c s) c' = cells_of d c'"
proof -
  have pne: "pos d c' \<noteq> pos d c" using pos_inj [OF c' c] ne by blast
  have "map (\<lambda>x. (fst x)[pos d c := snd x] ! pos d c') (zip (rows d) (snd s))
          = map (\<lambda>x. fst x ! pos d c') (zip (rows d) (snd s))"
    using pne by simp
  also have "\<dots> = map (\<lambda>r. r ! pos d c') (map fst (zip (rows d) (snd s)))"
    by (simp add: comp_def)
  also have "\<dots> = map (\<lambda>r. r ! pos d c') (rows d)"
    using len by simp
  finally show ?thesis
    using pos_names_cong [OF names_setitem [OF c], of s c']
    by (simp add: cells_of_def rows_setitem [OF c] comp_def case_prod_unfold)
qed

lemma setitems_map:
  assumes "distinct cs" and "set cs \<subseteq> set (names d)" and "wf_frame d"
    and "\<forall>c \<in> set cs. length (snd (h c)) = length (rows d)"
  shows "names (setitems d cs (map h cs)) = names d
       \<and> (\<forall>c \<in> set cs. cells_of (setitems d cs (map h cs)) c = snd (h c)
                        \<and> dtype_of (setitems d cs (map h cs)) c = fst (h c))
       \<and> (\<forall>c \<in> set (names d) - set cs. cells_of (setitems d cs (map h cs)) c = cells_of d c
                        \<and> dtype_of (setitems d cs (map h cs)) c = dtype_of d c)"
  using assms
proof (induction cs arbitrary: d)
  case Nil
  then show ?case by simp
next
  case (Cons c cs)
  let ?d1 = "setitem d c (h c)"
  let ?d' = "setitems ?d1 cs (map h cs)"
  have c: "c \<in> set (names d)" using Cons.prems by simp
  have len: "length (snd (h c)) = length (rows d)" using Cons.prems by simp
  have n1: "names ?d1 = names d" using names_setitem [OF c] .
  have wf1: "wf_frame ?d1" using wf_setitem [OF c] Cons.prems by simp
  have l1: "length (rows ?d1) = length (rows d)" using length_rows_setitem [OF c len] .
  have IH: "names ?d' = names ?d1
       \<and> (\<forall>x \<in> set cs. cells_of ?d' x = snd (h x) \<and> dtype_of ?d' x = fst (h x))
       \<and> (\<forall>x \<in> set (names ?d1) - set cs. cells_of ?d' x = cells_of ?d1 x
                        \<and> dtype_of ?d' x = dtype_of ?d1 x)"
    using Cons.prems wf1 by (intro Cons.IH) (auto simp: n1 l1)
  have cnot: "c \<notin> set cs" using Cons.prems by simp
  have head: "cells_of ?d' c = snd (h c) \<and> dtype_of ?d' c = fst (h c)"
    using IH c n1 cnot cells_setitem_same [OF c _ len] Cons.prems(3) dtype_of_setitem_same [OF c]
    by simp
  have other: "\<forall>x \<in> set (names d) - set (c # cs). cells_of ?d' x = cells_of d x
                        \<and> dtype_of ?d' x = dtype_of d x"
  proof
    fix x assume x: "x \<in> set (names d) - set (c # cs)"
    then have xd: "x \<in> set (names d)" and xc: "x \<noteq> c" and xs: "x \<notin> set cs" by auto
    have "cells_of ?d' x = cells_of ?d1 x \<and> dtype_of ?d' x = dtype_of ?d1 x"
      using IH xd xs n1 by simp
    then show "cells_of ?d' x = cells_of d x \<and> dtype_of ?d' x = dtype_of d x"
      using cells_setitem_other [OF c xd xc len] dtype_of_setitem_other [OF c xd xc] by simp
  qed
  show ?case using IH n1 head other by simp
qed

lemma series_of_getitems:
  assumes sub: "set cs \<subseteq> set (names d)" and X: "getitems d cs = Inr X"
  shows "series_of X = map (\<lambda>c. (dtype_of d c, cells_of d c)) cs"
proof -
  have Xeq: "X = \<lparr>columns = map (\<lambda>c. columns d ! pos d c) cs,
                  rows = map (\<lambda>r. map (\<lambda>c. r ! pos d c) cs) (rows d)\<rparr>"
    using X getitems_pos [OF sub] by simp
  have "series_of X = map (\<lambda>j. (dtype_of d (cs ! j), cells_of d (cs ! j))) [0..<length cs]"
    by (simp add: series_of_def Xeq dtype_of_def cells_of_def comp_def)
  also have "\<dots> = map (\<lambda>c. (dtype_of d c, cells_of d c)) (map (\<lambda>j. cs ! j) [0..<length cs])"
    by (simp add: comp_def)
  also have "\<dots> = map (\<lambda>c. (dtype_of d c, cells_of d c)) cs"
    by (simp only: map_nth)
  finally show ?thesis .
qed

lemma check_array_numeric:
  assumes "\<not> list_ex is_text cs"
  shows "check_array L (t, cs) = Inr (Float64, cs)"
proof -
  have "\<And>c. c \<in> set cs \<Longrightarrow> float_cell L c = Inr c"
  proof -
    fix c assume "c \<in> set cs"
    then have "\<not> is_text c" using assms by (auto simp: list_ex_iff)
    then show "float_cell L c = Inr c" by (cases c) (simp_all add: is_text_def)
  qed
  then have "mapM (float_cell L) cs = Inr (map (\<lambda>c. c) cs)" by (rule mapM_Inr)
  then show ?thesis by (simp add: check_array_def)
qed

lemma standardize_result:
  assumes dist: "distinct (NUMERIC_FEATS cfg)" and sub: "set (NUMERIC_FEATS cfg) \<subseteq> set (names d)"
    and wf: "wf_frame d" and ne: "rows d \<noteq> []" and nn: "NUMERIC_FEATS cfg \<noteq> []"
    and numeric: "\<forall>c \<in> set (NUMERIC_FEATS cfg). \<not> list_ex is_text (cells_of d c)"
  shows "\<exists>d'. standardize cfg L d = Inr d' \<and> names d' = names d
           \<and> (\<forall>c \<in> set (NUMERIC_FEATS cfg).
                 cells_of d' c = put_back (standard_scale L (nums (cells_of d c))) (cells_of d c)
                 \<and> dtype_of d' c = Float64)
           \<and> (\<forall>c \<in> set (names d) - set (NUMERIC_FEATS cfg).
                 cells_of d' c = cells_of d c \<and> dtype_of d' c = dtype_of d c)"
proof -
  let ?cs = "NUMERIC_FEATS cfg"
  let ?h = "\<lambda>c. scale_column L (Float64, cells_of d c)"
  obtain X where X: "getitems d ?cs = Inr X" using getitems_pos [OF sub] by blast
  have so: "series_of X = map (\<lambda>c. (dtype_of d c, cells_of d c)) ?cs"
    using series_of_getitems [OF sub X] .
  have "mapM (check_array L) (map (\<lambda>c. (dtype_of d c, cells_of d c)) ?cs)
          = Inr (map (\<lambda>x. (Float64, snd x)) (map (\<lambda>c. (dtype_of d c, cells_of d c)) ?cs))"
    using numeric by (intro mapM_Inr) (auto simp: check_array_numeric)
  then have cast: "mapM (check_array L) (series_of X) = Inr (map (\<lambda>c. (Float64, cells_of d c)) ?cs)"
    unfolding so by (simp add: comp_def)
  have rX: "rows X \<noteq> []" using getitems_rows_length [OF X] ne by auto
  have cX: "columns X \<noteq> []" using getitems_names [OF sub X] nn by (auto simp: names_def)
  have ft: "fit_transform L X = Inr (map ?h ?cs)"
    using rX cX by (simp add: fit_transform_def cast comp_def)
  have run: "standardize cfg L d = Inr (setitems d ?cs (map ?h ?cs))"
    by (simp add: standardize_def X ft)
  have lens: "\<forall>c \<in> set ?cs. length (snd (?h c)) = length (rows d)"
    by (simp add: scale_column_def cells_of_def)
  note s = setitems_map [OF dist sub wf lens]
  show ?thesis
    unfolding run using s by (simp add: scale_column_def)
qed

section \<open>The claims\<close>

text \<open>
  Claim C1. \<open>run_preprocessing_pipeline\<close> runs, on the owned table and stopping at the first
  exception, exactly the sequence: \<open>cast_types\<close> if its flag is set, the price filter with
  threshold \<open>17500000\<close>, the size filter with \<open>1000\<close>, the floor filter with \<open>30\<close>,
  \<open>standardize\<close> if its flag is set, \<open>select_features\<close>; the missing-value step is not
  among them.
\<close>

theorem run_preprocessing_pipeline_sequence:
  "run_preprocessing_pipeline cfg L do_cast_types do_standardize d
     = run_steps cfg L (spec_sequence do_cast_types do_standardize) d
   \<and> spec_sequence do_cast_types do_standardize =
       (if do_cast_types then [CastTypes] else [])
       @ [ProcessPrice 17500000, ProcessSize 1000, ProcessFloor 30]
       @ (if do_standardize then [Standardize] else [])
       @ [SelectFeatures]
   \<and> HandleMissingAndDuplicatedValues \<notin> set (spec_sequence do_cast_types do_standardize)"
proof -
  have b: "\<And>m. bind m Inr = (m :: error + dataframe)"
    by (simp add: bind_def split: sum.splits)
  have "run_preprocessing_pipeline cfg L do_cast_types do_standardize d
     = run_steps cfg L (spec_sequence do_cast_types do_standardize) d"
    by (cases do_cast_types; cases do_standardize)
       (simp_all add: run_preprocessing_pipeline_def spec_sequence_def b bind_def split: sum.splits)
  then show ?thesis by (simp add: spec_sequence_def)
qed

theorem run_preprocessing_pipeline_sequence_witness:
  "run_preprocessing_pipeline listing_config plain_library True False raw_listing =
     Inr \<lparr>columns = [(''size'', Float64), (''rooms'', Float64), (''floor'', Float64),
                     (''status'', Category {Str ''ready''}), (''price'', Float64)],
          rows = [[Num 52, Num 2, Num 3, Str ''ready'', Num 350000],
                  [Num 120, Num 5, Num 0, Missing, Num 910000]]\<rparr>"
proof -
  note r = run_preprocessing_pipeline_sequence
             [of listing_config plain_library True False raw_listing, THEN conjunct1]
  show ?thesis
    unfolding r
    by (simp add: spec_sequence_def cast_types_def astype_float_def astype_category_def
        process_price_def process_size_def process_floor_def select_features_def
        getitems_def loc_def getitem_def setitem_def names_def boolean_index_def notna_def
        to_numeric_def lt_scalar_def listing_config_def raw_listing_def insert_Diff_if)
qed




text \<open>
  Claim C3, as the code has it. On a table that has the eight columns named by the method,
  \<open>handle_missing_and_duplicated_values\<close> raises \<^verbatim>\<open>TypeError\<close> when one of the six
  filled columns is categorical without the fill value among its categories, complete or not.
  Otherwise it raises nothing and does, in this order: fill the missing \<open>floor\<close>,
  \<open>status\<close>, \<open>property_type\<close>, \<open>year_built\<close> and \<open>property_condition\<close> with the
  sentinel and the missing \<open>rooms\<close> with \<open>1\<close>; keep the first of every group of rows equal
  in all columns; drop the rows without \<open>price\<close>, then those without \<open>size\<close>. No
  remaining row lacks \<open>price\<close> or \<open>size\<close>. A table of ten rows of which one repeats
  another and one lacks its \<open>size\<close> is left with eight rows when no row lacks its price and
  the filling makes no two different rows equal.
\<close>

theorem handle_missing_spec:
  assumes present: "set [''floor'', ''status'', ''property_type'', ''rooms'', ''year_built'',
                         ''property_condition'', ''price'', ''size''] \<subseteq> set (names d)"
  shows "(\<not> list_all (fillable d) fill_values \<longrightarrow>
            handle_missing_and_duplicated_values d = Inl TypeError)
       \<and> (list_all (fillable d) fill_values \<longrightarrow>
           (\<exists>d'. handle_missing_and_duplicated_values d = Inr d' \<and> names d' = names d
              \<and> rows d' = filter (\<lambda>r. \<not> is_missing d ''size'' r)
                            (filter (\<lambda>r. \<not> is_missing d ''price'' r)
                               (rev (remdups (rev (map (fill_row d fill_values) (rows d))))))
              \<and> list_all (\<lambda>r. \<not> is_missing d' ''price'' r \<and> \<not> is_missing d' ''size'' r) (rows d')
              \<and> (length (rows d) = 10 \<and> length (remdups (rows d)) = 9
                   \<and> length (filter (is_missing d ''size'') (rows d)) = 1
                   \<and> \<not> list_ex (is_missing d ''price'') (rows d)
                   \<and> distinct (map (fill_row d fill_values) (remdups (rows d)))
                 \<longrightarrow> length (rows d') = 8)))"
proof (intro conjI impI)
  assume "\<not> list_all (fillable d) fill_values"
  then show "handle_missing_and_duplicated_values d = Inl TypeError"
    by (rule handle_missing_TypeError [OF present])
next
  assume ok: "list_all (fillable d) fill_values"
  obtain d' where run: "handle_missing_and_duplicated_values d = Inr d'" and nm: "names d' = names d"
    and rs: "rows d' = filter (\<lambda>r. \<not> is_missing d ''size'' r)
                         (filter (\<lambda>r. \<not> is_missing d ''price'' r)
                            (rev (remdups (rev (map (fill_row d fill_values) (rows d))))))"
    using handle_missing_result [OF present ok] by blast
  have m: "\<And>c. is_missing d' c = is_missing d c"
    using pos_names_cong [OF nm] by (simp add: is_missing_def fun_eq_iff)
  have post: "list_all (\<lambda>r. \<not> is_missing d' ''price'' r \<and> \<not> is_missing d' ''size'' r) (rows d')"
    unfolding m rs by (simp add: list_all_iff)
  have sub: "fst ` set fill_values \<subseteq> set (names d)"
    using present by (auto simp: fill_values_def)
  have ks: "\<And>r. is_missing d ''size'' (fill_row d fill_values r) = is_missing d ''size'' r"
    using present by (intro fill_row_keeps sub) (auto simp: fill_values_def)
  have kp: "\<And>r. is_missing d ''price'' (fill_row d fill_values r) = is_missing d ''price'' r"
    using present by (intro fill_row_keeps sub) (auto simp: fill_values_def)
  have sc: "length (rows d) = 10 \<and> length (remdups (rows d)) = 9
                \<and> length (filter (is_missing d ''size'') (rows d)) = 1
                \<and> \<not> list_ex (is_missing d ''price'') (rows d)
                \<and> distinct (map (fill_row d fill_values) (remdups (rows d)))
              \<longrightarrow> length (rows d') = 8"
    unfolding rs using scenario_count [of "rows d" "is_missing d ''size''" "is_missing d ''price''"
        "fill_row d fill_values", OF _ _ _ _ ks kp] by blast
  show "\<exists>d'. handle_missing_and_duplicated_values d = Inr d' \<and> names d' = names d
              \<and> rows d' = filter (\<lambda>r. \<not> is_missing d ''size'' r)
                            (filter (\<lambda>r. \<not> is_missing d ''price'' r)
                               (rev (remdups (rev (map (fill_row d fill_values) (rows d))))))
              \<and> list_all (\<lambda>r. \<not> is_missing d' ''price'' r \<and> \<not> is_missing d' ''size'' r) (rows d')
              \<and> (length (rows d) = 10 \<and> length (remdups (rows d)) = 9
                   \<and> length (filter (is_missing d ''size'') (rows d)) = 1
                   \<and> \<not> list_ex (is_missing d ''price'') (rows d)
                   \<and> distinct (map (fill_row d fill_values) (remdups (rows d)))
                 \<longrightarrow> length (rows d') = 8)"
    using run nm rs post sc by blast
qed

theorem handle_missing_spec_witness:
  "set [''floor'', ''status'', ''property_type'', ''rooms'', ''year_built'',
        ''property_condition'', ''price'', ''size''] \<subseteq> set (names raw_table)
   \<and> list_all (fillable raw_table) fill_values
   \<and> length (rows raw_table) = 10 \<and> length (remdups (rows raw_table)) = 9
   \<and> length (filter (is_missing raw_table ''size'') (rows raw_table)) = 1
   \<and> \<not> list_ex (is_missing raw_table ''price'') (rows raw_table)
   \<and> distinct (map (fill_row raw_table fill_values) (remdups (rows raw_table)))
   \<and> (\<exists>d'. handle_missing_and_duplicated_values raw_table = Inr d' \<and> length (rows d') = 8)"
proof -
  have h1: "set [''floor'', ''status'', ''property_type'', ''rooms'', ''year_built'',
        ''property_condition'', ''price'', ''size''] \<subseteq> set (names raw_table)"
    by (simp add: names_def raw_table_def)
  have p: "pos raw_table ''price'' = 0" "pos raw_table ''size'' = 1" "pos raw_table ''rooms'' = 2"
    "pos raw_table ''floor'' = 3" "pos raw_table ''status'' = 4" "pos raw_table ''property_type'' = 5"
    "pos raw_table ''year_built'' = 6" "pos raw_table ''property_condition'' = 7"
    by (simp_all add: pos_def names_def raw_table_def)
  have h2: "list_all (fillable raw_table) fill_values"
    by (simp add: fill_values_def fillable_def dtype_of_def p) (simp add: raw_table_def)
  have rw: "rows raw_table =
     [[Num 300000, Num 40, Num 2, Num 1, Str ''ready'', Str ''flat'', Num 1990, Str ''good''],
      [Num 310000, Num 41, Missing, Num 2, Missing, Str ''flat'', Num 1991, Str ''good''],
      [Num 320000, Num 42, Num 3, Missing, Str ''ready'', Str ''flat'', Missing, Missing],
      [Num 330000, Missing, Num 2, Num 4, Str ''ready'', Str ''house'', Num 1993, Str ''good''],
      [Num 340000, Num 44, Num 2, Num 5, Str ''ready'', Str ''flat'', Num 1994, Str ''new''],
      [Num 310000, Num 41, Missing, Num 2, Missing, Str ''flat'', Num 1991, Str ''good''],
      [Num 360000, Num 46, Num 4, Num 7, Str ''ready'', Missing, Num 1996, Str ''good''],
      [Num 370000, Num 47, Num 2, Num 8, Str ''ready'', Str ''flat'', Num 1997, Str ''good''],
      [Num 380000, Num 48, Num 1, Num 9, Str ''ready'', Str ''flat'', Num 1998, Str ''good''],
      [Num 390000, Num 49, Num 2, Num 10, Str ''ready'', Str ''flat'', Num 1999, Str ''old'']]"
    by (simp add: raw_table_def)
  have h3: "length (rows raw_table) = 10" unfolding rw by simp
  have rd: "remdups (rows raw_table) =
     [[Num 300000, Num 40, Num 2, Num 1, Str ''ready'', Str ''flat'', Num 1990, Str ''good''],
      [Num 320000, Num 42, Num 3, Missing, Str ''ready'', Str ''flat'', Missing, Missing],
      [Num 330000, Missing, Num 2, Num 4, Str ''ready'', Str ''house'', Num 1993, Str ''good''],
      [Num 340000, Num 44, Num 2, Num 5, Str ''ready'', Str ''flat'', Num 1994, Str ''new''],
      [Num 310000, Num 41, Missing, Num 2, Missing, Str ''flat'', Num 1991, Str ''good''],
      [Num 360000, Num 46, Num 4, Num 7, Str ''ready'', Missing, Num 1996, Str ''good''],
      [Num 370000, Num 47, Num 2, Num 8, Str ''ready'', Str ''flat'', Num 1997, Str ''good''],
      [Num 380000, Num 48, Num 1, Num 9, Str ''ready'', Str ''flat'', Num 1998, Str ''good''],
      [Num 390000, Num 49, Num 2, Num 10, Str ''ready'', Str ''flat'', Num 1999, Str ''old'']]"
    unfolding rw by simp
  have h4: "length (remdups (rows raw_table)) = 9" unfolding rd by simp
  have h5: "length (filter (is_missing raw_table ''size'') (rows raw_table)) = 1"
    unfolding rw by (simp add: is_missing_def p)
  have h6: "\<not> list_ex (is_missing raw_table ''price'') (rows raw_table)"
    unfolding rw by (simp add: is_missing_def p)
  have h7: "distinct (map (fill_row raw_table fill_values) (remdups (rows raw_table)))"
    unfolding rd by (simp add: fill_row_def fill_values_def p fill_cell_def sentinel_def)
  from handle_missing_spec [OF h1] h2 h3 h4 h5 h6 h7
  have "\<exists>d'. handle_missing_and_duplicated_values raw_table = Inr d' \<and> length (rows d') = 8"
    by blast
  with h1 h2 h3 h4 h5 h6 h7 show ?thesis by blast
qed

text \<open>
  Claim C3 as worded fails three times. A table whose \<open>status\<close> column is categorical and
  already complete raises \<^verbatim>\<open>TypeError\<close>, the sentinel being none of its categories. A
  table of ten rows with one repeated row and one row without \<open>size\<close> is left with seven
  rows when a further row lacks its price, and also when two rows differ only in that one has
  no \<open>status\<close> where the other holds the sentinel: the filling makes them equal, and the
  second is dropped as a duplicate.
\<close>

theorem handle_missing_counterexample:
  "list_all (\<lambda>cv. Missing \<notin> set (cells_of categorical_table (fst cv))) fill_values
   \<and> handle_missing_and_duplicated_values categorical_table = Inl TypeError
   \<and> length (rows priceless_table) = 10 \<and> length (remdups (rows priceless_table)) = 9
   \<and> length (filter (is_missing priceless_table ''size'') (rows priceless_table)) = 1
   \<and> map_sum id (\<lambda>d. length (rows d)) (handle_missing_and_duplicated_values priceless_table) = Inr 7
   \<and> length (rows merging_table) = 10 \<and> length (remdups (rows merging_table)) = 9
   \<and> length (filter (is_missing merging_table ''size'') (rows merging_table)) = 1
   \<and> \<not> list_ex (is_missing merging_table ''price'') (rows merging_table)
   \<and> map_sum id (\<lambda>d. length (rows d)) (handle_missing_and_duplicated_values merging_table) = Inr 7"
proof -
  have ap: "pos categorical_table ''price'' = 0" "pos categorical_table ''size'' = 1"
    "pos categorical_table ''rooms'' = 2" "pos categorical_table ''floor'' = 3"
    "pos categorical_table ''status'' = 4" "pos categorical_table ''property_type'' = 5"
    "pos categorical_table ''year_built'' = 6" "pos categorical_table ''property_condition'' = 7"
    by (simp_all add: pos_def names_def categorical_table_def)
  have a1: "list_all (\<lambda>cv. Missing \<notin> set (cells_of categorical_table (fst cv))) fill_values"
    by (simp add: fill_values_def cells_of_def ap) (simp add: categorical_table_def)
  have a2: "handle_missing_and_duplicated_values categorical_table = Inl TypeError"
  proof (rule handle_missing_TypeError)
    show "set [''floor'', ''status'', ''property_type'', ''rooms'', ''year_built'',
               ''property_condition'', ''price'', ''size''] \<subseteq> set (names categorical_table)"
      by (simp add: names_def categorical_table_def)
    show "\<not> list_all (fillable categorical_table) fill_values"
      by (simp add: fill_values_def fillable_def dtype_of_def ap sentinel_def)
         (simp add: categorical_table_def)
  qed
  have brw: "rows priceless_table = priceless_rows" by (simp add: priceless_table_def)
  have bp: "pos priceless_table ''price'' = 0" "pos priceless_table ''size'' = 1" "pos priceless_table ''rooms'' = 2"
    "pos priceless_table ''floor'' = 3" "pos priceless_table ''status'' = 4" "pos priceless_table ''property_type'' = 5"
    "pos priceless_table ''year_built'' = 6" "pos priceless_table ''property_condition'' = 7"
    by (simp_all add: pos_def names_def priceless_table_def raw_table_def)
  have bpres: "set [''floor'', ''status'', ''property_type'', ''rooms'', ''year_built'',
        ''property_condition'', ''price'', ''size''] \<subseteq> set (names priceless_table)"
    by (simp add: names_def priceless_table_def raw_table_def)
  have bok: "list_all (fillable priceless_table) fill_values"
    by (simp add: fill_values_def fillable_def dtype_of_def bp) (simp add: priceless_table_def raw_table_def)
  have b1: "length (rows priceless_table) = 10" "length (remdups (rows priceless_table)) = 9"
    unfolding brw by (simp_all add: priceless_rows_def)
  have b2: "length (filter (is_missing priceless_table ''size'') (rows priceless_table)) = 1"
    unfolding brw by (simp_all add: priceless_rows_def is_missing_def bp)
  obtain db where rb: "handle_missing_and_duplicated_values priceless_table = Inr db"
    and sb: "rows db = filter (\<lambda>r. \<not> is_missing priceless_table ''size'' r)
               (filter (\<lambda>r. \<not> is_missing priceless_table ''price'' r)
                  (rev (remdups (rev (map (fill_row priceless_table fill_values) (rows priceless_table))))))"
    using handle_missing_result [OF bpres bok] by blast
  have "length (rows db) = 7"
    unfolding sb brw
    by (simp add: priceless_rows_def is_missing_def fill_row_def fill_values_def fill_cell_def
        sentinel_def bp)
  then have b3: "map_sum id (\<lambda>d. length (rows d)) (handle_missing_and_duplicated_values priceless_table) = Inr 7"
    by (simp add: rb)
  have crw: "rows merging_table = merging_rows" by (simp add: merging_table_def)
  have cp: "pos merging_table ''price'' = 0" "pos merging_table ''size'' = 1" "pos merging_table ''rooms'' = 2"
    "pos merging_table ''floor'' = 3" "pos merging_table ''status'' = 4" "pos merging_table ''property_type'' = 5"
    "pos merging_table ''year_built'' = 6" "pos merging_table ''property_condition'' = 7"
    by (simp_all add: pos_def names_def merging_table_def raw_table_def)
  have cpres: "set [''floor'', ''status'', ''property_type'', ''rooms'', ''year_built'',
        ''property_condition'', ''price'', ''size''] \<subseteq> set (names merging_table)"
    by (simp add: names_def merging_table_def raw_table_def)
  have cok: "list_all (fillable merging_table) fill_values"
    by (simp add: fill_values_def fillable_def dtype_of_def cp) (simp add: merging_table_def raw_table_def)
  have c1: "length (rows merging_table) = 10" "length (remdups (rows merging_table)) = 9"
    unfolding crw by (simp_all add: merging_rows_def)
  have c2: "length (filter (is_missing merging_table ''size'') (rows merging_table)) = 1"
    "\<not> list_ex (is_missing merging_table ''price'') (rows merging_table)"
    unfolding crw by (simp_all add: merging_rows_def is_missing_def cp)
  obtain dc where rc: "handle_missing_and_duplicated_values merging_table = Inr dc"
    and sc: "rows dc = filter (\<lambda>r. \<not> is_missing merging_table ''size'' r)
               (filter (\<lambda>r. \<not> is_missing merging_table ''price'' r)
                  (rev (remdups (rev (map (fill_row merging_table fill_values) (rows merging_table))))))"
    using handle_missing_result [OF cpres cok] by blast
  have "length (rows dc) = 7"
    unfolding sc crw
    by (simp add: merging_rows_def is_missing_def fill_row_def fill_values_def fill_cell_def
        sentinel_def cp)
  then have c3: "map_sum id (\<lambda>d. length (rows d)) (handle_missing_and_duplicated_values merging_table) = Inr 7"
    by (simp add: rc)
  show ?thesis using a1 a2 b1 b2 b3 c1 c2 c3 by simp
qed

text \<open>
  Claim C4, as the code has it. For \<open>filter_floor > 0\<close> and a table with a \<open>floor\<close>
  column: when the column is not categorical and holds no text, \<open>process_floor\<close> keeps
  exactly the rows whose floor is a number strictly below \<open>filter_floor\<close>; when it holds a
  text, such as the sentinel of the missing-value step, or is categorical, the comparison raises
  \<^verbatim>\<open>TypeError\<close>. Whenever the method returns, every remaining row has its floor below
  \<open>filter_floor\<close>.
\<close>

theorem process_floor_numeric:
  assumes "''floor'' \<in> set (names d)" and "0 < filter_floor"
  shows "process_floor filter_floor d =
           (if is_category (snd (columns d ! pos d ''floor''))
               \<or> list_ex (\<lambda>r. is_text (r ! pos d ''floor'')) (rows d)
            then Inl TypeError
            else Inr (d\<lparr>rows := filter (\<lambda>r. below filter_floor (r ! pos d ''floor'')) (rows d)\<rparr>))
         \<and> (\<forall>d'. process_floor filter_floor d = Inr d' \<longrightarrow>
               list_all (\<lambda>r. below filter_floor (r ! pos d' ''floor'')) (rows d'))"
proof -
  have eq: "process_floor filter_floor d =
           (if is_category (snd (columns d ! pos d ''floor''))
               \<or> list_ex (\<lambda>r. is_text (r ! pos d ''floor'')) (rows d)
            then Inl TypeError
            else Inr (d\<lparr>rows := filter (\<lambda>r. below filter_floor (r ! pos d ''floor'')) (rows d)\<rparr>))"
    using assms(2) lt_filter [OF assms(1), of filter_floor] by (simp add: process_floor_def)
  have "\<And>d'. process_floor filter_floor d = Inr d' \<Longrightarrow>
               list_all (\<lambda>r. below filter_floor (r ! pos d' ''floor'')) (rows d')"
  proof -
    fix d' assume "process_floor filter_floor d = Inr d'"
    then have d': "d' = d\<lparr>rows := filter (\<lambda>r. below filter_floor (r ! pos d ''floor'')) (rows d)\<rparr>"
      unfolding eq by (simp split: if_splits)
    then have "pos d' ''floor'' = pos d ''floor''" by (simp add: pos_def names_def)
    then show "list_all (\<lambda>r. below filter_floor (r ! pos d' ''floor'')) (rows d')"
      using d' by (simp add: list_all_iff)
  qed
  with eq show ?thesis by blast
qed

theorem process_floor_numeric_witness:
  "''floor'' \<in> set (names tall_table) \<and> (0::real) < 30
   \<and> process_floor 30 tall_table =
       Inr \<lparr>columns = [(''id'', Int64), (''floor'', Float64)],
            rows = [[Num 1, Num 3], [Num 4, Num 29]]\<rparr>"
proof -
  have h1: "''floor'' \<in> set (names tall_table)" by (simp add: names_def tall_table_def)
  have h2: "(0::real) < 30" by simp
  have i: "pos tall_table ''floor'' = 1" by (simp add: pos_def names_def tall_table_def)
  note r = process_floor_numeric [OF h1 h2, THEN conjunct1, unfolded i]
  have "process_floor 30 tall_table =
       Inr \<lparr>columns = [(''id'', Int64), (''floor'', Float64)],
            rows = [[Num 1, Num 3], [Num 4, Num 29]]\<rparr>"
    unfolding r by (simp add: tall_table_def is_text_def below_def)
  with h1 h2 show ?thesis by blast
qed

text \<open>
  Claim C4 as worded fails: after the missing-value step has put the sentinel into
  \<open>floor\<close>, the comparison with the threshold \<open>30\<close> raises.
\<close>

theorem process_floor_counterexample:
  "handle_missing_and_duplicated_values floor_table = Inr floor_filled
   \<and> process_floor 30 floor_filled = Inl TypeError"
  by (simp add: handle_missing_and_duplicated_values_def fillna_inplace_def fillna_def fill_dtype_def
      getitem_def setitem_def names_def sentinel_def drop_duplicates_def boolean_index_def notna_def
      floor_table_def floor_filled_def process_floor_def lt_scalar_def)


text \<open>
  Claim C5, as the code has it. \<open>train_test_split\<close> itself takes the columns
  \<open>FEAT_COLS\<close> and \<open>TARGET_COL\<close> out of the owned table: whenever it returns, the training
  and the holdout features have exactly the columns \<open>FEAT_COLS\<close>, whatever else the table
  holds, and calling it after \<open>select_features\<close> gives the same result as calling it before.
\<close>

theorem train_test_split_projects:
  assumes "train_test_split cfg L d = Inr (X_train, X_test, y_train, y_test)"
  shows "names X_train = FEAT_COLS cfg \<and> names X_test = FEAT_COLS cfg
         \<and> (\<forall>d'. select_features cfg d = Inr d' \<longrightarrow>
               train_test_split cfg L d' = train_test_split cfg L d)"
proof -
  from assms obtain X y where X: "getitems d (FEAT_COLS cfg) = Inr X"
    and y: "getitem d (TARGET_COL cfg) = Inr y"
    and sk: "sk_train_test_split L X y 42 = Inr (X_train, X_test, y_train, y_test)"
    by (auto simp: train_test_split_def bind_eq_Inr)
  have sub: "set (FEAT_COLS cfg) \<subseteq> set (names d)" using X by (rule getitems_Inr_sub)
  have t: "TARGET_COL cfg \<in> set (names d)" using y by (rule getitem_Inr_mem)
  have "names X = FEAT_COLS cfg" using getitems_names [OF sub X] .
  then have n: "names X_train = FEAT_COLS cfg \<and> names X_test = FEAT_COLS cfg"
    using sk_split_names [OF sk] by simp
  have "\<And>d'. select_features cfg d = Inr d' \<Longrightarrow> train_test_split cfg L d' = train_test_split cfg L d"
  proof -
    fix d' assume "select_features cfg d = Inr d'"
    then have d': "getitems d (FEAT_COLS cfg @ [TARGET_COL cfg]) = Inr d'"
      by (simp add: select_features_def)
    have sub2: "set (FEAT_COLS cfg @ [TARGET_COL cfg]) \<subseteq> set (names d)" using sub t by auto
    have "getitems d' (FEAT_COLS cfg) = getitems d (FEAT_COLS cfg)"
      using getitems_getitems [OF sub2 d'] by auto
    moreover have "getitem d' (TARGET_COL cfg) = getitem d (TARGET_COL cfg)"
      using getitem_getitems [OF sub2 d'] by auto
    ultimately show "train_test_split cfg L d' = train_test_split cfg L d"
      by (simp add: train_test_split_def)
  qed
  with n show ?thesis by blast
qed

theorem train_test_split_projects_witness:
  "train_test_split listing_config plain_library split_table =
     Inr (\<lparr>columns = [(''size'', Float64), (''rooms'', Float64), (''floor'', Float64), (''status'', Category {Str ''ready'', Str ''sold''})],
           rows = [[Num 53, Num 3, Num 3, Str ''ready''], [Num 52, Num 3, Num 2, Str ''sold''],
                   [Num 51, Num 2, Num 1, Str ''ready''], [Num 50, Num 2, Num 0, Str ''ready'']]\<rparr>,
          \<lparr>columns = [(''size'', Float64), (''rooms'', Float64), (''floor'', Float64), (''status'', Category {Str ''ready'', Str ''sold''})],
           rows = [[Num 55, Num 4, Num 5, Str ''ready''], [Num 54, Num 4, Num 4, Str ''sold'']]\<rparr>,
          (Float64, [Num 103, Num 102, Num 101, Num 100]),
          (Float64, [Num 105, Num 104]))
   \<and> FEAT_COLS listing_config = [''size'', ''rooms'', ''floor'', ''status'']"
proof -
  have r: "train_test_split listing_config plain_library split_table =
     Inr (\<lparr>columns = [(''size'', Float64), (''rooms'', Float64), (''floor'', Float64), (''status'', Category {Str ''ready'', Str ''sold''})],
           rows = [[Num 53, Num 3, Num 3, Str ''ready''], [Num 52, Num 3, Num 2, Str ''sold''],
                   [Num 51, Num 2, Num 1, Str ''ready''], [Num 50, Num 2, Num 0, Str ''ready'']]\<rparr>,
          \<lparr>columns = [(''size'', Float64), (''rooms'', Float64), (''floor'', Float64), (''status'', Category {Str ''ready'', Str ''sold''})],
           rows = [[Num 55, Num 4, Num 5, Str ''ready''], [Num 54, Num 4, Num 4, Str ''sold'']]\<rparr>,
          (Float64, [Num 103, Num 102, Num 101, Num 100]),
          (Float64, [Num 105, Num 104]))"
    by (simp add: train_test_split_def sk_train_test_split_def n_test_of_def iloc_def iloc_series_def
        getitems_def getitem_def loc_def names_def listing_config_def plain_library_def
        split_table_def upt6 Let_def)
  have f: "FEAT_COLS listing_config = [''size'', ''rooms'', ''floor'', ''status'']"
    by (simp add: listing_config_def)
  from train_test_split_projects [OF r, THEN conjunct1] r f show ?thesis by blast
qed

text \<open>
  Claim C5 as worded fails: on a table that still has the columns \<open>id\<close> and \<open>title\<close>
  the features returned have the columns \<open>FEAT_COLS\<close> and no other.
\<close>

theorem train_test_split_columns_counterexample:
  "\<not> set (names raw_listing) \<subseteq> set (FEAT_COLS listing_config) \<union> {TARGET_COL listing_config}
   \<and> train_test_split listing_config plain_library raw_listing =
     Inr (\<lparr>columns = [(''size'', Float64), (''rooms'', Int64), (''floor'', Float64), (''status'', Object)],
           rows = [[Num 52, Num 2, Num 3, Str ''ready'']]\<rparr>,
          \<lparr>columns = [(''size'', Float64), (''rooms'', Int64), (''floor'', Float64), (''status'', Object)],
           rows = [[Num 120, Num 5, Num 0, Missing]]\<rparr>,
          (Float64, [Num 350000]),
          (Float64, [Num 910000]))
   \<and> FEAT_COLS listing_config = [''size'', ''rooms'', ''floor'', ''status'']"
  by (simp add: train_test_split_def sk_train_test_split_def n_test_of_def iloc_def iloc_series_def
        getitems_def getitem_def loc_def names_def listing_config_def plain_library_def
        raw_listing_def Let_def upt_rec)

text \<open>
  Claim C6, as the code has it. \<open>static_cast_types\<close> reads and writes no table object but
  the one it is given: every other object of the store is as before, the instance's own table
  among them when it is another object. The argument itself is coerced in place and handed
  back: when the coercion succeeds the reference returned is the argument, and the object it
  points to holds the coerced table.
\<close>

theorem static_cast_types_in_place:
  assumes "static_cast_types cfg L a h = (h', r)"
  shows "(\<forall>b. b \<noteq> a \<longrightarrow> h' b = h b)
       \<and> (\<forall>d'. cast_types cfg L (h a) = Inr d' \<longrightarrow> r = Inr a \<and> h' a = d')"
  using static_cast_types_refines_aux [OF assms] by (cases r) auto

theorem static_cast_types_in_place_witness:
  "static_cast_types listing_config plain_library 0 two_tables = (two_tables(0 := cast_listing), Inr 0)
   \<and> (two_tables(0 := cast_listing)) 1 = split_table
   \<and> (two_tables(0 := cast_listing)) 0 = cast_listing"
proof -
  note t = static_cast_types_in_place [OF static_two_tables]
  from t have "(two_tables(0 := cast_listing)) 1 = two_tables 1" by simp
  then have "(two_tables(0 := cast_listing)) 1 = split_table" by (simp add: two_tables_def)
  then show ?thesis using static_two_tables by simp
qed

text \<open>
  Claim C6 as worded fails: called on the reference that \<open>get\<close> hands out, the method
  changes the caller's table, which is the instance's own table.
\<close>

theorem static_cast_types_mutates_counterexample:
  "two_tables (df owner) = raw_listing
   \<and> snd (static_cast_types listing_config plain_library (get owner) two_tables) = Inr (get owner)
   \<and> fst (static_cast_types listing_config plain_library (get owner) two_tables) (df owner) = cast_listing
   \<and> cast_listing \<noteq> raw_listing"
proof -
  have g: "get owner = 0" "df owner = 0" by (simp_all add: get_def owner_def)
  have "cast_listing \<noteq> raw_listing" by (simp add: cast_listing_def raw_listing_def)
  then show ?thesis unfolding g using static_two_tables by (simp add: two_tables_def)
qed

text \<open>
  Claim C7. \<open>static_cast_types\<close> on a table object and \<open>cast_types\<close> on an owned table
  with the same content end the same way: both raise the same exception, or the table the
  static method leaves in the object is the table \<open>cast_types\<close> leaves. In that table every
  column of \<open>NUMERIC_FEATS\<close> (that is not listed as categorical too) is floating point and
  every column of \<open>CATEGORICAL_FEATS\<close> is categorical.
\<close>

theorem static_cast_types_same_types:
  "snd (static_cast_types cfg L a h) = map_sum id (\<lambda>_. a) (cast_types cfg L (h a))
   \<and> (\<forall>d'. cast_types cfg L (h a) = Inr d' \<longrightarrow>
         fst (static_cast_types cfg L a h) a = d'
         \<and> (\<forall>c \<in> set (NUMERIC_FEATS cfg) - set (CATEGORICAL_FEATS cfg). dtype_of d' c = Float64)
         \<and> (\<forall>c \<in> set (CATEGORICAL_FEATS cfg). is_category (dtype_of d' c)))"
proof -
  obtain h' r where run: "static_cast_types cfg L a h = (h', r)"
    by (cases "static_cast_types cfg L a h")
  note aux = static_cast_types_refines_aux [OF run]
  have "r = map_sum id (\<lambda>_. a) (cast_types cfg L (h a))"
    using aux by (cases r) auto
  moreover have "\<And>d'. cast_types cfg L (h a) = Inr d' \<Longrightarrow> h' a = d'"
    using aux by (cases r) auto
  ultimately show ?thesis using run cast_types_dtypes [of cfg L "h a"] by auto
qed

theorem static_cast_types_same_types_witness:
  "snd (static_cast_types listing_config plain_library 0 two_tables) = Inr 0
   \<and> cast_types listing_config plain_library (two_tables 0) = Inr cast_listing
   \<and> fst (static_cast_types listing_config plain_library 0 two_tables) 0 = cast_listing
   \<and> dtype_of cast_listing ''size'' = Float64 \<and> is_category (dtype_of cast_listing ''status'')"
proof -
  note t = static_cast_types_same_types [of listing_config plain_library 0 two_tables]
  have c: "cast_types listing_config plain_library (two_tables 0) = Inr cast_listing"
    using cast_raw_listing by (simp add: two_tables_def)
  have m: "''size'' \<in> set (NUMERIC_FEATS listing_config) - set (CATEGORICAL_FEATS listing_config)"
    "''status'' \<in> set (CATEGORICAL_FEATS listing_config)"
    by (simp_all add: listing_config_def)
  from t c have "snd (static_cast_types listing_config plain_library 0 two_tables) = Inr 0"
    by simp
  moreover from t c have "fst (static_cast_types listing_config plain_library 0 two_tables) 0 = cast_listing"
    by blast
  moreover from t c m have "dtype_of cast_listing ''size'' = Float64"
    "is_category (dtype_of cast_listing ''status'')"
    by blast+
  ultimately show ?thesis using c by blast
qed

text \<open>
  Claim C8, as the code has it. On a table that has the columns of \<open>FEAT_COLS\<close> and
  \<open>TARGET_COL\<close> and at least two rows, \<open>train_test_split\<close> returns the training features,
  the holdout features, the training target and the holdout target: of \<open>n\<close> rows the
  \<open>\<lceil>n / 5\<rceil>\<close> first positions of the permutation drawn from the seed \<open>42\<close> are the holdout
  part and the other positions the training part, so that the two parts split the rows of the
  table. The result is a function of the table and of that permutation alone: a second call on
  the unchanged table returns the same assignment. With fewer than two rows the split raises
  \<^verbatim>\<open>ValueError\<close>.
\<close>

theorem train_test_split_spec:
  assumes cols: "set (FEAT_COLS cfg) \<union> {TARGET_COL cfg} \<subseteq> set (names d)"
      and rng: "valid_rng L"
  shows "(length (rows d) < 2 \<longrightarrow> train_test_split cfg L d = Inl ValueError)
       \<and> (2 \<le> length (rows d) \<longrightarrow>
           (\<exists>X y. getitems d (FEAT_COLS cfg) = Inr X \<and> getitem d (TARGET_COL cfg) = Inr y
              \<and> train_test_split cfg L d =
                  Inr (iloc X (train_positions L (length (rows d))),
                       iloc X (test_positions L (length (rows d))),
                       iloc_series y (train_positions L (length (rows d))),
                       iloc_series y (test_positions L (length (rows d)))))
           \<and> length (test_positions L (length (rows d))) = n_test_of (length (rows d))
           \<and> length (train_positions L (length (rows d))) = length (rows d) - n_test_of (length (rows d))
           \<and> length (rows d) \<le> 5 * n_test_of (length (rows d))
           \<and> 5 * n_test_of (length (rows d)) < length (rows d) + 5
           \<and> set (train_positions L (length (rows d))) \<union> set (test_positions L (length (rows d)))
                = {0..<length (rows d)}
           \<and> set (train_positions L (length (rows d))) \<inter> set (test_positions L (length (rows d))) = {}
           \<and> distinct (train_positions L (length (rows d)))
           \<and> distinct (test_positions L (length (rows d)))
           \<and> (\<forall>L'. permutation L' 42 (length (rows d)) = permutation L 42 (length (rows d)) \<longrightarrow>
                  train_test_split cfg L' d = train_test_split cfg L d))"
proof -
  let ?n = "length (rows d)"
  let ?p = "permutation L 42 ?n"
  have sub: "set (FEAT_COLS cfg) \<subseteq> set (names d)" and t: "TARGET_COL cfg \<in> set (names d)"
    using cols by auto
  obtain X where X: "getitems d (FEAT_COLS cfg) = Inr X" using getitems_pos [OF sub] by blast
  obtain y where y: "getitem d (TARGET_COL cfg) = Inr y" using getitem_pos [OF t] by blast
  have lX: "length (rows X) = ?n" using getitems_rows_length [OF X] .
  have run: "\<And>L'. train_test_split cfg L' d = sk_train_test_split L' X y 42"
    by (simp add: train_test_split_def X y)
  have lp: "length ?p = ?n" using valid_rng_length [OF rng] .
  have dp: "distinct ?p" and sp: "set ?p = {0..<?n}" using rng by (simp_all add: valid_rng_def)
  have small: "?n < 2 \<Longrightarrow> train_test_split cfg L d = Inl ValueError"
  proof -
    assume "?n < 2"
    then have "?n = 0 \<or> ?n = 1" by linarith
    then have "?n - n_test_of ?n = 0" by (auto simp: n_test_of_def)
    then show ?thesis by (simp add: run sk_train_test_split_def lX Let_def)
  qed
  have big: "2 \<le> ?n \<Longrightarrow> ?n - n_test_of ?n \<noteq> 0"
    by (simp add: n_test_of_def)
  have res: "2 \<le> ?n \<Longrightarrow> train_test_split cfg L d =
                  Inr (iloc X (train_positions L ?n), iloc X (test_positions L ?n),
                       iloc_series y (train_positions L ?n), iloc_series y (test_positions L ?n))"
    using big lp
    by (simp add: run sk_train_test_split_def lX Let_def test_positions_def train_positions_def)
  have l1: "length (test_positions L ?n) = n_test_of ?n"
    using lp n_test_bounds [of ?n] by (simp add: test_positions_def) 
  have l2: "length (train_positions L ?n) = ?n - n_test_of ?n"
    using lp by (simp add: train_positions_def)
  have app: "test_positions L ?n @ train_positions L ?n = ?p"
    by (simp add: test_positions_def train_positions_def)
  have u: "set (train_positions L ?n) \<union> set (test_positions L ?n) = {0..<?n}"
    using sp app by (metis set_append sup_commute)
  have dd: "distinct (test_positions L ?n @ train_positions L ?n)" using dp app by simp
  then have i: "set (train_positions L ?n) \<inter> set (test_positions L ?n) = {}"
    and d1: "distinct (train_positions L ?n)" and d2: "distinct (test_positions L ?n)"
    by auto
  have det: "\<And>L'. permutation L' 42 ?n = ?p \<Longrightarrow> train_test_split cfg L' d = train_test_split cfg L d"
    by (simp add: run sk_train_test_split_def lX Let_def)
  show ?thesis
    using small res X y l1 l2 n_test_bounds [of ?n] u i d1 d2 det by blast
qed

theorem train_test_split_spec_witness:
  "set (FEAT_COLS listing_config) \<union> {TARGET_COL listing_config} \<subseteq> set (names split_table)
   \<and> valid_rng plain_library \<and> 2 \<le> length (rows split_table)
   \<and> test_positions plain_library (length (rows split_table)) = [5, 4]
   \<and> train_positions plain_library (length (rows split_table)) = [3, 2, 1, 0]
   \<and> n_test_of (length (rows split_table)) = 2"
proof -
  have h1: "set (FEAT_COLS listing_config) \<union> {TARGET_COL listing_config} \<subseteq> set (names split_table)"
    by (simp add: listing_config_def names_def split_table_def)
  have h2: "valid_rng plain_library"
    by (simp add: valid_rng_def plain_library_def)
  have n: "length (rows split_table) = 6" by (simp add: split_table_def)
  have h3: "2 \<le> length (rows split_table)" unfolding n by simp
  have nt: "n_test_of 6 = 2" by (simp add: n_test_of_def)
  have t1: "test_positions plain_library 6 = [5, 4]"
    by (simp add: test_positions_def nt plain_library_def upt6)
  have t2: "train_positions plain_library 6 = [3, 2, 1, 0]"
    by (simp add: train_positions_def nt plain_library_def upt6)
  from train_test_split_spec [OF h1 h2] h3
  have "length (test_positions plain_library (length (rows split_table)))
          = n_test_of (length (rows split_table))"
    by blast
  then have "n_test_of (length (rows split_table)) = 2" unfolding n t1 by simp
  with h1 h2 h3 t1 t2 show ?thesis unfolding n by blast
qed

text \<open>
  Claim C8 as worded fails on a table of one row: its only row would go to the holdout part,
  and sklearn refuses an empty training part.
\<close>

theorem train_test_split_single_row_counterexample:
  "train_test_split listing_config plain_library single_listing = Inl ValueError"
  by (simp add: train_test_split_def sk_train_test_split_def n_test_of_def
      getitems_def getitem_def loc_def names_def listing_config_def single_listing_def Let_def)

text \<open>
  Claim C9. On every table that has the columns of \<open>FEAT_COLS\<close> and \<open>TARGET_COL\<close>,
  whatever else it has, \<open>select_features\<close> succeeds and leaves a table whose columns are
  \<open>FEAT_COLS\<close> in their order followed by \<open>TARGET_COL\<close>, with the same rows and each
  kept column holding the series it held before.
\<close>

theorem select_features_columns:
  assumes "set (FEAT_COLS cfg) \<union> {TARGET_COL cfg} \<subseteq> set (names d)"
  shows "\<exists>d'. select_features cfg d = Inr d'
            \<and> names d' = FEAT_COLS cfg @ [TARGET_COL cfg]
            \<and> length (rows d') = length (rows d)
            \<and> (\<forall>c \<in> set (FEAT_COLS cfg) \<union> {TARGET_COL cfg}. getitem d' c = getitem d c)"
proof -
  let ?cs = "FEAT_COLS cfg @ [TARGET_COL cfg]"
  have sub: "set ?cs \<subseteq> set (names d)" using assms by auto
  obtain d' where d': "getitems d ?cs = Inr d'" using getitems_pos [OF sub] by blast
  have "names d' = ?cs" using getitems_names [OF sub d'] .
  moreover have "length (rows d') = length (rows d)"
    using d' getitems_pos [OF sub] by auto
  moreover have "\<forall>c \<in> set (FEAT_COLS cfg) \<union> {TARGET_COL cfg}. getitem d' c = getitem d c"
    using getitem_getitems [OF sub d'] by auto
  ultimately show ?thesis using d' by (simp add: select_features_def)
qed

theorem select_features_columns_witness:
  "select_features listing_config raw_listing =
     Inr \<lparr>columns = [(''size'', Float64), (''rooms'', Int64), (''floor'', Float64),
                     (''status'', Object), (''price'', Float64)],
          rows = [[Num 52, Num 2, Num 3, Str ''ready'', Num 350000],
                  [Num 120, Num 5, Num 0, Missing, Num 910000]]\<rparr>
   \<and> names raw_listing = [''id'', ''price'', ''size'', ''rooms'', ''floor'', ''status'', ''title'']"
  using select_features_columns [of listing_config raw_listing]
  by (simp add: select_features_def getitems_def loc_def names_def raw_listing_def listing_config_def)




end
